theory Spec2Isabelle
  imports Main
begin

section \<open>Data model of block\_access.c\<close>

text \<open>
  \<^verbatim>\<open>typedef struct BATime { int hour; int minute; } BATime;\<close>
  The parser only ever stores hours in 0..23 and minutes in 0..59, and the clock
  fields of \<^verbatim>\<open>struct tm\<close> are in the same ranges, so \<^verbatim>\<open>hour * 60 + minute\<close>
  never leaves the range of a C \<^verbatim>\<open>int\<close>; the fields are modelled as \<open>int\<close>.
\<close>

record BATime =
  hour :: int
  minute :: int

text \<open>
  The arrays \<^verbatim>\<open>wday\<close> and \<^verbatim>\<open>roles\<close> are obtained from \<^verbatim>\<open>palloc\<close>, which does not
  clear memory. A slot the parser never assigns keeps an indeterminate content
  (\<open>Uninit\<close>). A \<^verbatim>\<open>roles\<close> slot that was assigned holds the result of \<^verbatim>\<open>trim\<close>:
  a string, or \<^verbatim>\<open>NULL\<close> (\<open>None\<close>). The fields \<^verbatim>\<open>nwday\<close> and \<^verbatim>\<open>nroles\<close> are the
  lengths of the two lists.
\<close>

datatype 'a slot = Uninit | Stored 'a

record BAIntervalRole =
  wday :: "int slot list"
  start_time :: BATime
  end_time :: BATime
  roles :: "string option slot list"

definition nwday :: "BAIntervalRole \<Rightarrow> nat" where
  "nwday r = length (wday r)"

definition nroles :: "BAIntervalRole \<Rightarrow> nat" where
  "nroles r = length (roles r)"

text \<open>The fields of \<^verbatim>\<open>struct tm\<close> that \<^verbatim>\<open>block_access_checks\<close> reads.\<close>

record tm =
  tm_wday :: int
  tm_hour :: int
  tm_min :: int

text \<open>
  Every \<^verbatim>\<open>elog(ERROR, ...)\<close> of the file leaves the function at once. The sites are
  \<open>GroupCountMismatch\<close> (line 459), \<open>MalformedInterval\<close> (lines 165, 171 and 177,
  with the part that \<^verbatim>\<open>strtok\<close> did not find and the group),
  \<open>UnknownWeekday\<close> (line 218, with the token and the week day list),
  \<open>MalformedTime\<close> (lines 234, 242, 257 and 265, with the piece that \<^verbatim>\<open>strtok\<close> did
  not find and the token), \<open>HourOutOfRange\<close> (lines 238 and 261) and
  \<open>MinuteOutOfRange\<close> (lines 246 and 269), each with the number that was read.
  The message of line 519 (access denied) is the verdict \<open>Deny\<close> below.
  The last four constructors are the ways the C code can leave defined behaviour:
  a \<^verbatim>\<open>NULL\<close> pointer handed to \<^verbatim>\<open>pstrdup\<close>, \<^verbatim>\<open>strcmp\<close>, \<^verbatim>\<open>strtok\<close>, \<^verbatim>\<open>pfree\<close>
  or dereferenced, the use of a slot that was never assigned, an \<^verbatim>\<open>atoi\<close> result that
  does not fit an \<^verbatim>\<open>int\<close>, and a write past the \<^verbatim>\<open>item\<close> array.
\<close>

datatype tbound = Start | End
datatype tfield = Hour | Minute
datatype ipart = WeekDay | StartTime | EndTime

datatype error =
    GroupCountMismatch
  | MalformedInterval ipart string
  | UnknownWeekday string string
  | MalformedTime tbound tfield string
  | HourOutOfRange tbound int
  | MinuteOutOfRange tbound int
  | NullDeref
  | UninitRead
  | IntOverflow
  | BufferOverflow

datatype verdict = Allow | Deny

section \<open>Library functions of C\<close>

text \<open>\<^verbatim>\<open>isspace\<close> in the C locale: space, and the characters 9 to 13.\<close>

definition isspace :: "char \<Rightarrow> bool" where
  "isspace c = (let n = (of_char c :: nat) in n = 32 \<or> (9 \<le> n \<and> n \<le> 13))"

definition isdigit :: "char \<Rightarrow> bool" where
  "isdigit c = (let n = (of_char c :: nat) in 48 \<le> n \<and> n \<le> 57)"

text \<open>
  The successive results of \<^verbatim>\<open>strtok(s, delims)\<close>, \<^verbatim>\<open>strtok(NULL, delims)\<close>, ... on one
  buffer: leading delimiters are skipped, the token runs up to the next delimiter,
  which is overwritten, and the scan resumes behind it. The call after the last
  element of this list returns \<^verbatim>\<open>NULL\<close>. No token is empty.
\<close>

function strtok_tokens :: "string \<Rightarrow> string \<Rightarrow> string list" where
  "strtok_tokens delims s =
     (let s1 = dropWhile (\<lambda>c. c \<in> set delims) s in
      if s1 = [] then []
      else takeWhile (\<lambda>c. c \<notin> set delims) s1
           # strtok_tokens delims (drop 1 (dropWhile (\<lambda>c. c \<notin> set delims) s1)))"
  by pat_completeness auto
termination
proof (relation "measure (\<lambda>(d, s). length s)")
  show "wf (measure (\<lambda>(d, s). length s))" by simp
next
  fix delims s :: string and x
  assume x: "x = dropWhile (\<lambda>c. c \<in> set delims) s" and ne: "x \<noteq> []"
  have "length (dropWhile (\<lambda>c. c \<notin> set delims) x) \<le> length x"
    by (rule length_dropWhile_le)
  moreover have "length x \<le> length s"
    unfolding x by (rule length_dropWhile_le)
  moreover have "0 < length x"
    using ne by simp
  ultimately have "length (dropWhile (\<lambda>c. c \<notin> set delims) x) - 1 < length s"
    by arith
  then show "((delims, drop 1 (dropWhile (\<lambda>c. c \<notin> set delims) x)), (delims, s))
      \<in> measure (\<lambda>(d, s). length s)"
    by simp
qed

declare strtok_tokens.simps [simp del]

text \<open>
  \<^verbatim>\<open>atoi\<close>: optional white space, an optional sign, then the longest run of decimal
  digits; no digits give 0. A value outside the range of \<^verbatim>\<open>int\<close> is undefined in C.
\<close>

definition digit_val :: "char \<Rightarrow> int" where
  "digit_val c = int (of_char c) - 48"

definition dec_val :: "string \<Rightarrow> int" where
  "dec_val ds = foldl (\<lambda>a c. 10 * a + digit_val c) 0 ds"

definition atoi :: "string \<Rightarrow> error + int" where
  "atoi s =
     (let s1 = dropWhile isspace s;
          neg = (case s1 of [] \<Rightarrow> False | c # _ \<Rightarrow> c = CHR ''-'');
          s2 = (case s1 of [] \<Rightarrow> [] | c # r \<Rightarrow> if c = CHR ''-'' \<or> c = CHR ''+'' then r else s1);
          v = dec_val (takeWhile isdigit s2);
          r = (if neg then - v else v)
      in if - 2147483648 \<le> r \<and> r \<le> 2147483647 then Inr r else Inl IntOverflow)"

section \<open>trim and strtok\_all\<close>

text \<open>
  \<^verbatim>\<open>trim\<close> (lines 68-100): \<^verbatim>\<open>NULL\<close> for \<^verbatim>\<open>NULL\<close>; \<^verbatim>\<open>start\<close> moves over the leading white
  space, \<^verbatim>\<open>end\<close> moves back over the trailing white space, and the characters from
  \<^verbatim>\<open>start\<close> to \<^verbatim>\<open>end\<close> are copied; \<^verbatim>\<open>NULL\<close> when \<^verbatim>\<open>end\<close> is before \<^verbatim>\<open>start\<close>. On a string
  of white space only, the backward loop looks at the byte before the string; the
  model takes that byte not to be white space, as the comment of the function does
  (``If s contains only whitespaces, return NULL'').
\<close>

fun trim :: "string option \<Rightarrow> string option" where
  "trim None = None"
| "trim (Some s) =
     (let t = dropWhile isspace s;
          u = rev (dropWhile isspace (rev t))
      in if u = [] then None else Some u)"

text \<open>
  \<^verbatim>\<open>strtok_all\<close> (lines 108-134) keeps its position in the static variable \<^verbatim>\<open>src\<close>,
  here the third argument; the result is the returned pointer and the new \<^verbatim>\<open>src\<close>.
  When a delimiter is found the token before it is returned, also when it is empty;
  without a delimiter the rest is returned only when it is not empty.
\<close>

definition strtok_all :: "string option \<Rightarrow> string \<Rightarrow> string option \<Rightarrow> string option \<times> string option" where
  "strtok_all str delims src0 =
     (let src = (case str of None \<Rightarrow> src0 | Some s \<Rightarrow> Some s) in
      case src of
        None \<Rightarrow> (None, None)
      | Some s \<Rightarrow>
          (let p = dropWhile (\<lambda>c. c \<notin> set delims) s in
           if p \<noteq> [] then (Some (takeWhile (\<lambda>c. c \<notin> set delims) s), Some (drop 1 p))
           else if s \<noteq> [] then (Some s, None)
           else (None, Some s)))"

text \<open>
  The loop of lines 378-384 after its first call: every further token comes from
  \<^verbatim>\<open>strtok_all(NULL, ";")\<close>, until that returns \<^verbatim>\<open>NULL\<close>.
\<close>

function strtok_all_rest :: "string \<Rightarrow> string option \<Rightarrow> string list" where
  "strtok_all_rest delims src =
     (case strtok_all None delims src of
        (None, _) \<Rightarrow> []
      | (Some t, src') \<Rightarrow> t # strtok_all_rest delims src')"
  by pat_completeness auto
termination
proof (relation "measure (\<lambda>(d, src). case src of None \<Rightarrow> 0 | Some s \<Rightarrow> Suc (length s))")
  show "wf (measure (\<lambda>(d, src). case src of None \<Rightarrow> 0 | Some s \<Rightarrow> Suc (length s)))"
    by simp
next
  fix delims :: string and src x1 x2 :: "string option" and t :: string
  assume a: "(x1, x2) = strtok_all None delims src" "x1 = Some t"
  from a have st: "strtok_all None delims src = (Some t, x2)" by simp
  show "((delims, x2), (delims, src))
      \<in> measure (\<lambda>(d, src). case src of None \<Rightarrow> 0 | Some s \<Rightarrow> Suc (length s))"
  proof (cases src)
    case None
    with st show ?thesis by (simp add: strtok_all_def)
  next
    case (Some s)
    have le: "length (dropWhile (\<lambda>c. c \<notin> set delims) s) \<le> length s"
      by (rule length_dropWhile_le)
    show ?thesis
    proof (cases "dropWhile (\<lambda>c. c \<notin> set delims) s = []")
      case True
      with st Some show ?thesis
        by (simp add: strtok_all_def split: if_splits)
    next
      case False
      then have "0 < length (dropWhile (\<lambda>c. c \<notin> set delims) s)" by simp
      with le have "length (dropWhile (\<lambda>c. c \<notin> set delims) s) - Suc 0 < length s"
        by arith
      with st Some False show ?thesis
        by (auto simp add: strtok_all_def)
    qed
  qed
qed

declare strtok_all_rest.simps [simp del]

definition strtok_all_tokens :: "string option \<Rightarrow> string \<Rightarrow> string option \<Rightarrow> string list" where
  "strtok_all_tokens str delims src0 =
     (case strtok_all str delims src0 of
        (None, _) \<Rightarrow> []
      | (Some t, src') \<Rightarrow> t # strtok_all_rest delims src')"

section \<open>The parser\<close>

text \<open>
  The chain of \<^verbatim>\<open>strcmp\<close> of lines 202-218 on one token of the week day list.
  \<^verbatim>\<open>item_wd\<close> is \<^verbatim>\<open>NULL\<close> for a token of white space, and \<^verbatim>\<open>strcmp\<close> reads it.
\<close>

definition parse_wday :: "string \<Rightarrow> string \<Rightarrow> error + int" where
  "parse_wday ptr weekday_str =
     (case trim (Some ptr) of
        None \<Rightarrow> Inl NullDeref
      | Some item_wd \<Rightarrow>
          if item_wd = ''sun'' then Inr 0
          else if item_wd = ''mon'' then Inr 1
          else if item_wd = ''tue'' then Inr 2
          else if item_wd = ''wed'' then Inr 3
          else if item_wd = ''thu'' then Inr 4
          else if item_wd = ''fri'' then Inr 5
          else if item_wd = ''sat'' then Inr 6
          else Inl (UnknownWeekday item_wd weekday_str))"

text \<open>The \<^verbatim>\<open>while (ptr)\<close> loop of lines 199-225 over the tokens of the week day list.\<close>

fun parse_wdays :: "string list \<Rightarrow> string \<Rightarrow> error + int list" where
  "parse_wdays [] weekday_str = Inr []"
| "parse_wdays (ptr # ptrs) weekday_str =
     (case parse_wday ptr weekday_str of
        Inl e \<Rightarrow> Inl e
      | Inr d \<Rightarrow>
          (case parse_wdays ptrs weekday_str of
             Inl e \<Rightarrow> Inl e
           | Inr ds \<Rightarrow> Inr (d # ds)))"

text \<open>
  Lines 229-250 for the start time and lines 252-273 for the end time are the same
  code but for the word in the messages, which is the first argument here.
  \<^verbatim>\<open>pstrdup\<close> reads its argument, which is \<^verbatim>\<open>NULL\<close> when the part was white space.
\<close>

definition parse_time :: "tbound \<Rightarrow> string option \<Rightarrow> error + BATime" where
  "parse_time b time_str =
     (case time_str of
        None \<Rightarrow> Inl NullDeref
      | Some s \<Rightarrow>
          (case strtok_tokens '':'' s of
             [] \<Rightarrow> Inl (MalformedTime b Hour s)
           | h # rest \<Rightarrow>
               (case atoi h of
                  Inl e \<Rightarrow> Inl e
                | Inr hv \<Rightarrow>
                    if hv < 0 \<or> hv > 23 then Inl (HourOutOfRange b hv)
                    else
                      (case rest of
                         [] \<Rightarrow> Inl (MalformedTime b Minute s)
                       | m # _ \<Rightarrow>
                           (case atoi m of
                              Inl e \<Rightarrow> Inl e
                            | Inr mv \<Rightarrow>
                                if mv < 0 \<or> mv > 59 then Inl (MinuteOutOfRange b mv)
                                else Inr \<lparr>hour = hv, minute = mv\<rparr>)))))"

text \<open>
  \<^verbatim>\<open>parse_interval\<close> (lines 147-277). The first three tokens between dashes are the
  week day list, the start time and the end time; \<^verbatim>\<open>strtok\<close> is not called a fourth
  time. \<^verbatim>\<open>nwday\<close> is one more than the number of commas, and the slots behind the
  tokens that \<^verbatim>\<open>strtok\<close> returned are never assigned.
\<close>

definition parse_interval :: "BAIntervalRole \<Rightarrow> string option \<Rightarrow> error + BAIntervalRole" where
  "parse_interval interval so =
     (case so of
        None \<Rightarrow> Inl NullDeref
      | Some s \<Rightarrow>
          (case strtok_tokens ''-'' s of
             [] \<Rightarrow> Inl (MalformedInterval WeekDay s)
           | [p1] \<Rightarrow> Inl (MalformedInterval StartTime s)
           | [p1, p2] \<Rightarrow> Inl (MalformedInterval EndTime s)
           | p1 # p2 # p3 # _ \<Rightarrow>
               (case trim (Some p1) of
                  None \<Rightarrow> Inl NullDeref
                | Some weekday_str \<Rightarrow>
                    (case parse_wdays (strtok_tokens '','' weekday_str) weekday_str of
                       Inl e \<Rightarrow> Inl e
                     | Inr ds \<Rightarrow>
                         (case parse_time Start (trim (Some p2)) of
                            Inl e \<Rightarrow> Inl e
                          | Inr st \<Rightarrow>
                              (case parse_time End (trim (Some p3)) of
                                 Inl e \<Rightarrow> Inl e
                               | Inr et \<Rightarrow>
                                   Inr (interval
                                     \<lparr>wday := map Stored ds
                                        @ replicate (Suc (count_list weekday_str CHR '','') - length ds) Uninit,
                                      start_time := st,
                                      end_time := et\<rparr>)))))))"

text \<open>
  \<^verbatim>\<open>parse_roles\<close> (lines 285-326). \<^verbatim>\<open>nroles\<close> is one more than the number of commas;
  each token that \<^verbatim>\<open>strtok\<close> returns is stored trimmed, so a token of white space
  stores \<^verbatim>\<open>NULL\<close>; the slots behind the last token are never assigned.
\<close>

definition parse_roles :: "BAIntervalRole \<Rightarrow> string option \<Rightarrow> BAIntervalRole" where
  "parse_roles interval so =
     (case so of
        None \<Rightarrow> interval\<lparr>roles := []\<rparr>
      | Some s \<Rightarrow>
          (let ptrs = strtok_tokens '','' s in
           interval\<lparr>roles := map (\<lambda>ptr. Stored (trim (Some ptr))) ptrs
             @ replicate (Suc (count_list s CHR '','') - length ptrs) Uninit\<rparr>))"

text \<open>
  The array \<^verbatim>\<open>item\<close> of \<^verbatim>\<open>parse_options\<close>: \<^verbatim>\<open>n\<close> pointers, cleared by \<^verbatim>\<open>palloc0\<close>, filled
  from the front with the trimmed tokens.
\<close>

definition fill_item :: "string list \<Rightarrow> nat \<Rightarrow> error + string option list" where
  "fill_item ptrs n =
     (if n < length ptrs then Inl BufferOverflow
      else Inr (map (\<lambda>ptr. trim (Some ptr)) ptrs @ replicate (n - length ptrs) None))"

text \<open>Lines 355-364: the groups of the interval string, split by \<^verbatim>\<open>strtok\<close>.\<close>

definition interval_items :: "string \<Rightarrow> nat \<Rightarrow> error + string option list" where
  "interval_items intervals_str n = fill_item (strtok_tokens '';'' intervals_str) n"

text \<open>Lines 374-384: the groups of the role string, split by \<^verbatim>\<open>strtok_all\<close>.\<close>

definition role_items :: "string option \<Rightarrow> nat \<Rightarrow> string option \<Rightarrow> error + string option list" where
  "role_items roles_str n src0 = fill_item (strtok_all_tokens roles_str '';'' src0) n"

text \<open>The loop of lines 367-371; an error in one group ends the whole parse.\<close>

fun parse_intervals :: "BAIntervalRole list \<Rightarrow> string option list \<Rightarrow> error + BAIntervalRole list" where
  "parse_intervals (r # rs) (it # its) =
     (case parse_interval r it of
        Inl e \<Rightarrow> Inl e
      | Inr r' \<Rightarrow>
          (case parse_intervals rs its of
             Inl e \<Rightarrow> Inl e
           | Inr rs' \<Rightarrow> Inr (r' # rs')))"
| "parse_intervals rs [] = Inr rs"
| "parse_intervals [] its = Inr []"

text \<open>
  \<^verbatim>\<open>parse_options\<close> (lines 335-397). The two settings and the static cursor of
  \<^verbatim>\<open>strtok_all\<close> are arguments. \<^verbatim>\<open>strtok\<close> gets \<^verbatim>\<open>NULL\<close> as its first argument when the
  interval string is white space, and the last \<^verbatim>\<open>pfree\<close> gets \<^verbatim>\<open>NULL\<close> when the role
  string is white space (\<^verbatim>\<open>pfree\<close> reads the header in front of its argument; the
  other calls on pointers that may be \<^verbatim>\<open>NULL\<close> are guarded, lines 390 and 529).
\<close>

definition parse_options ::
  "string option \<Rightarrow> string option \<Rightarrow> string option \<Rightarrow> BAIntervalRole list \<Rightarrow> nat
     \<Rightarrow> error + BAIntervalRole list" where
  "parse_options interval_time exclude_roles src0 ir n =
     (case interval_time of
        None \<Rightarrow> Inr ir
      | Some iv \<Rightarrow>
          (let intervals_str = trim (Some iv);
               roles_str = trim exclude_roles
           in case intervals_str of
                None \<Rightarrow> Inl NullDeref
              | Some s \<Rightarrow>
                  (case interval_items s n of
                     Inl e \<Rightarrow> Inl e
                   | Inr item \<Rightarrow>
                       (case parse_intervals ir item of
                          Inl e \<Rightarrow> Inl e
                        | Inr ir1 \<Rightarrow>
                            (case role_items roles_str n src0 of
                               Inl e \<Rightarrow> Inl e
                             | Inr item2 \<Rightarrow>
                                 if roles_str = None then Inl NullDeref
                                 else Inr (map2 parse_roles ir1 item2))))))"

section \<open>The evaluator\<close>

text \<open>
  The loop over \<^verbatim>\<open>j\<close> of lines 477-526, up to the test of line 488: whether some
  entry of \<^verbatim>\<open>wday\<close> equals the current week day. The loop stops at the first such
  entry; the entries behind it are not read.
\<close>

fun find_wday :: "int slot list \<Rightarrow> int \<Rightarrow> error + bool" where
  "find_wday [] d = Inr False"
| "find_wday (Uninit # ws) d = Inl UninitRead"
| "find_wday (Stored w # ws) d = (if w = d then Inr True else find_wday ws d)"

text \<open>
  The loop over \<^verbatim>\<open>k\<close> of lines 507-516: \<^verbatim>\<open>strcmp\<close> on each slot in turn, until one
  equals the user name.
\<close>

fun find_role :: "string option slot list \<Rightarrow> string \<Rightarrow> error + bool" where
  "find_role [] user_name = Inr False"
| "find_role (Uninit # rs) user_name = Inl UninitRead"
| "find_role (Stored None # rs) user_name = Inl NullDeref"
| "find_role (Stored (Some r) # rs) user_name =
     (if r = user_name then Inr True else find_role rs user_name)"

text \<open>Lines 528-530: every slot is read, and freed unless it is \<^verbatim>\<open>NULL\<close>.\<close>

fun free_roles :: "string option slot list \<Rightarrow> error + unit" where
  "free_roles [] = Inr ()"
| "free_roles (Uninit # rs) = Inl UninitRead"
| "free_roles (Stored r # rs) = free_roles rs"

text \<open>Lines 490-520, for the rule whose week day matched.\<close>

definition check_time :: "BAIntervalRole \<Rightarrow> tm \<Rightarrow> string \<Rightarrow> error + verdict" where
  "check_time r now user_name =
     (let s1 = hour (start_time r) * 60 + minute (start_time r);
          s2 = hour (end_time r) * 60 + minute (end_time r);
          n1 = tm_hour now * 60 + tm_min now
      in if n1 < s1 \<or> n1 > s2 then
           (case find_role (roles r) user_name of
              Inl e \<Rightarrow> Inl e
            | Inr found \<Rightarrow> if \<not> found then Inr Deny else Inr Allow)
         else Inr Allow)"

text \<open>
  The loop over \<^verbatim>\<open>i\<close> of lines 471-531. A rule without the current week day has its
  roles freed and the next rule is looked at. At the first rule with the current
  week day the time is checked; a denial leaves at once, otherwise the roles of
  that rule are freed and \<^verbatim>\<open>bailout\<close> ends the loop. Falling out of the loop is
  ``access allowed'' (line 544).
\<close>

fun search_intervals :: "BAIntervalRole list \<Rightarrow> tm \<Rightarrow> string \<Rightarrow> error + verdict" where
  "search_intervals [] now user_name = Inr Allow"
| "search_intervals (r # rs) now user_name =
     (case find_wday (wday r) (tm_wday now) of
        Inl e \<Rightarrow> Inl e
      | Inr True \<Rightarrow>
          (case check_time r now user_name of
             Inl e \<Rightarrow> Inl e
           | Inr Deny \<Rightarrow> Inr Deny
           | Inr Allow \<Rightarrow>
               (case free_roles (roles r) of
                  Inl e \<Rightarrow> Inl e
                | Inr _ \<Rightarrow> Inr Allow))
      | Inr False \<Rightarrow>
          (case free_roles (roles r) of
             Inl e \<Rightarrow> Inl e
           | Inr _ \<Rightarrow> search_intervals rs now user_name))"

text \<open>\<^verbatim>\<open>palloc0\<close> of line 461: every field of every rule is zero.\<close>

definition zero_interval :: BAIntervalRole where
  "zero_interval =
     \<lparr>wday = [], start_time = \<lparr>hour = 0, minute = 0\<rparr>,
      end_time = \<lparr>hour = 0, minute = 0\<rparr>, roles = []\<rparr>"

text \<open>
  \<^verbatim>\<open>block_access_checks\<close> (lines 402-546). The first argument is
  \<^verbatim>\<open>status == STATUS_OK\<close>; the two settings are \<^verbatim>\<open>NULL\<close> until they are configured.
  The function is the authentication hook of a backend process and runs once in
  it, so the cursor of \<^verbatim>\<open>strtok_all\<close> still has its initial value \<^verbatim>\<open>NULL\<close>.
  Returning without an error lets the connection go on: the verdict \<open>Allow\<close>.
  The loop of line 451 reads \<^verbatim>\<open>exclude_roles\<close> without a test for \<^verbatim>\<open>NULL\<close>.
\<close>

definition block_access_checks ::
  "bool \<Rightarrow> string option \<Rightarrow> string option \<Rightarrow> string \<Rightarrow> tm \<Rightarrow> error + verdict" where
  "block_access_checks status_ok interval_time exclude_roles user_name now =
     (case interval_time of
        None \<Rightarrow> Inr Allow
      | Some iv \<Rightarrow>
          if \<not> status_ok then Inr Allow
          else
            (case exclude_roles of
               None \<Rightarrow> Inl NullDeref
             | Some ro \<Rightarrow>
                 (let nintervals = Suc (count_list iv CHR '';'');
                      nroles = Suc (count_list ro CHR '';'')
                  in if nintervals \<noteq> nroles then Inl GroupCountMismatch
                     else
                       (case parse_options interval_time exclude_roles None
                               (replicate nintervals zero_interval) nintervals of
                          Inl e \<Rightarrow> Inl e
                        | Inr intervals \<Rightarrow> search_intervals intervals now user_name))))"

section \<open>Vocabulary of the specification\<close>

text \<open>
  The split that the specification describes: every group between two delimiters,
  in order, the empty ones included, so that a string with \<open>k\<close> delimiters has
  \<open>k + 1\<close> groups.
\<close>

fun split_all :: "char \<Rightarrow> string \<Rightarrow> string list" where
  "split_all d [] = [[]]"
| "split_all d (c # cs) =
     (if c = d then [] # split_all d cs
      else (case split_all d cs of [] \<Rightarrow> [[c]] | g # gs \<Rightarrow> (c # g) # gs))"

text \<open>
  A rule is silent on a week day when none of its week day entries is that day.
  Every entry must have been assigned for the scan of the rule to be defined, and
  every role slot as well, since the scan frees the roles of a rule it passes.
\<close>

definition silent_on :: "BAIntervalRole \<Rightarrow> int \<Rightarrow> bool" where
  "silent_on r d =
     (list_all (\<lambda>w. case w of Uninit \<Rightarrow> False | Stored x \<Rightarrow> x \<noteq> d) (wday r)
      \<and> list_all (\<lambda>x. x \<noteq> Uninit) (roles r))"

text \<open>
  The groups of a split have their empty groups last when no group of length zero
  is followed by a group that \<^verbatim>\<open>trim\<close> does not turn into \<^verbatim>\<open>NULL\<close>.
\<close>

fun empties_last :: "string list \<Rightarrow> bool" where
  "empties_last [] = True"
| "empties_last (g # gs) =
     (if g = [] then list_all (\<lambda>h. trim (Some h) = None) gs else empties_last gs)"

section \<open>The evaluator: window, first match, default\<close>

lemma split_all_not_Nil: "split_all d s \<noteq> []"
  by (induction s) (auto split: list.splits)

lemma length_split_all: "length (split_all d s) = Suc (count_list s d)"
  by (induction s) (auto split: list.splits simp: split_all_not_Nil)

lemma find_wday_silent:
  "list_all (\<lambda>w. case w of Uninit \<Rightarrow> False | Stored x \<Rightarrow> x \<noteq> d) ws \<Longrightarrow> find_wday ws d = Inr False"
  by (induction ws d rule: find_wday.induct) auto

lemma free_roles_ok: "list_all (\<lambda>x. x \<noteq> Uninit) rs \<Longrightarrow> free_roles rs = Inr ()"
  by (induction rs rule: free_roles.induct) auto

lemma search_skip:
  "list_all (\<lambda>p. silent_on p (tm_wday now)) pre \<Longrightarrow>
   search_intervals (pre @ rs) now u = search_intervals rs now u"
  by (induction pre) (auto simp: silent_on_def find_wday_silent free_roles_ok)

lemma find_wday_first:
  "d \<notin> set ds \<Longrightarrow> find_wday (map Stored ds @ Stored d # ws) d = Inr True"
  by (induction ds) auto

lemma find_role_names:
  "find_role (map (\<lambda>n. Stored (Some n)) names) u = Inr (u \<in> set names)"
  by (induction names) auto

lemma free_roles_names: "free_roles (map (\<lambda>n. Stored (Some n)) names) = Inr ()"
  by (induction names) auto

lemma search_first_match:
  assumes "list_all (\<lambda>p. silent_on p (tm_wday now)) pre"
    and "wday r = map Stored ds @ Stored (tm_wday now) # ws"
    and "tm_wday now \<notin> set ds"
  shows "search_intervals (pre @ r # post) now u =
     (case check_time r now u of
        Inl e \<Rightarrow> Inl e
      | Inr Deny \<Rightarrow> Inr Deny
      | Inr Allow \<Rightarrow> (case free_roles (roles r) of Inl e \<Rightarrow> Inl e | Inr _ \<Rightarrow> Inr Allow))"
  using assms by (simp add: search_skip find_wday_first)

lemma block_access_checks_parsed:
  assumes "count_list iv CHR '';'' = count_list ro CHR '';''"
    and "parse_options (Some iv) (Some ro) None
           (replicate (Suc (count_list iv CHR '';'')) zero_interval)
           (Suc (count_list iv CHR '';'')) = Inr intervals"
  shows "block_access_checks True (Some iv) (Some ro) u now = search_intervals intervals now u"
  using assms by (simp add: block_access_checks_def)

text \<open>
  Claim C1. Let the rules before \<open>r\<close> be silent on the current week day and let the
  first entry of \<open>r\<close> that equals the current week day be reached; let the role slots
  of \<open>r\<close> hold the names \<open>excluded_principals\<close>. With \<open>s1\<close>, \<open>s2\<close> and \<open>n1\<close> the start
  time, the end time and the current time in minutes, the verdict is \<open>Allow\<close> when
  \<open>s1 \<le> n1 \<le> s2\<close>; outside of that closed interval it is \<open>Allow\<close> exactly when the
  user name is one of the names, and \<open>Deny\<close> otherwise.
\<close>

theorem first_match_window:
  assumes "list_all (\<lambda>p. silent_on p (tm_wday now)) pre"
    and "wday r = map Stored ds @ Stored (tm_wday now) # ws"
    and "tm_wday now \<notin> set ds"
    and "roles r = map (\<lambda>n. Stored (Some n)) excluded_principals"
    and "s1 = hour (start_time r) * 60 + minute (start_time r)"
    and "s2 = hour (end_time r) * 60 + minute (end_time r)"
    and "n1 = tm_hour now * 60 + tm_min now"
  shows "search_intervals (pre @ r # post) now user_name =
     Inr (if s1 \<le> n1 \<and> n1 \<le> s2 then Allow
          else if user_name \<in> set excluded_principals then Allow else Deny)"
  using assms(4-7)
  by (simp add: search_first_match [OF assms(1-3)] check_time_def find_role_names
      free_roles_names not_less not_le)

text \<open>
  The rule \<^verbatim>\<open>sat - 08:00 - 12:00\<close> with the role \<^verbatim>\<open>carol\<close>, on a Saturday: \<^verbatim>\<open>dave\<close>
  is allowed at 08:00 and at 12:00 and denied at 07:59 and at 12:01, when \<^verbatim>\<open>carol\<close>
  is allowed.
\<close>

theorem first_match_window_witness:
  "list_all (\<lambda>p. silent_on p 6) []
   \<and> (6::int) \<notin> set []
   \<and> search_intervals ([] @ \<lparr>wday = [Stored 6], start_time = \<lparr>hour = 8, minute = 0\<rparr>,
        end_time = \<lparr>hour = 12, minute = 0\<rparr>, roles = [Stored (Some ''carol'')]\<rparr> # [])
       \<lparr>tm_wday = 6, tm_hour = 8, tm_min = 0\<rparr> ''dave'' = Inr Allow
   \<and> search_intervals ([] @ \<lparr>wday = [Stored 6], start_time = \<lparr>hour = 8, minute = 0\<rparr>,
        end_time = \<lparr>hour = 12, minute = 0\<rparr>, roles = [Stored (Some ''carol'')]\<rparr> # [])
       \<lparr>tm_wday = 6, tm_hour = 12, tm_min = 0\<rparr> ''dave'' = Inr Allow
   \<and> search_intervals ([] @ \<lparr>wday = [Stored 6], start_time = \<lparr>hour = 8, minute = 0\<rparr>,
        end_time = \<lparr>hour = 12, minute = 0\<rparr>, roles = [Stored (Some ''carol'')]\<rparr> # [])
       \<lparr>tm_wday = 6, tm_hour = 7, tm_min = 59\<rparr> ''dave'' = Inr Deny
   \<and> search_intervals ([] @ \<lparr>wday = [Stored 6], start_time = \<lparr>hour = 8, minute = 0\<rparr>,
        end_time = \<lparr>hour = 12, minute = 0\<rparr>, roles = [Stored (Some ''carol'')]\<rparr> # [])
       \<lparr>tm_wday = 6, tm_hour = 12, tm_min = 1\<rparr> ''dave'' = Inr Deny
   \<and> search_intervals ([] @ \<lparr>wday = [Stored 6], start_time = \<lparr>hour = 8, minute = 0\<rparr>,
        end_time = \<lparr>hour = 12, minute = 0\<rparr>, roles = [Stored (Some ''carol'')]\<rparr> # [])
       \<lparr>tm_wday = 6, tm_hour = 12, tm_min = 1\<rparr> ''carol'' = Inr Allow"
proof -
  let ?r = "\<lparr>wday = [Stored 6], start_time = \<lparr>hour = 8, minute = 0\<rparr>,
        end_time = \<lparr>hour = 12, minute = 0\<rparr>, roles = [Stored (Some ''carol'')]\<rparr>"
  have h1: "list_all (\<lambda>p. silent_on p 6) []" by simp
  have h3: "(6::int) \<notin> set []" by simp
  have w: "search_intervals ([] @ ?r # []) \<lparr>tm_wday = 6, tm_hour = h, tm_min = m\<rparr> u
     = Inr (if (480::int) \<le> h * 60 + m \<and> h * 60 + m \<le> 720 then Allow
            else if u \<in> set [''carol''] then Allow else Deny)" for h m u
    by (rule first_match_window [where ds = "[]" and ws = "[]"]) simp_all
  have a: "search_intervals ([] @ ?r # []) \<lparr>tm_wday = 6, tm_hour = 8, tm_min = 0\<rparr> ''dave'' = Inr Allow"
    by (simp only: w) simp
  have b: "search_intervals ([] @ ?r # []) \<lparr>tm_wday = 6, tm_hour = 12, tm_min = 0\<rparr> ''dave'' = Inr Allow"
    by (simp only: w) simp
  have c: "search_intervals ([] @ ?r # []) \<lparr>tm_wday = 6, tm_hour = 7, tm_min = 59\<rparr> ''dave'' = Inr Deny"
    by (simp only: w) simp
  have d: "search_intervals ([] @ ?r # []) \<lparr>tm_wday = 6, tm_hour = 12, tm_min = 1\<rparr> ''dave'' = Inr Deny"
    by (simp only: w) simp
  have e: "search_intervals ([] @ ?r # []) \<lparr>tm_wday = 6, tm_hour = 12, tm_min = 1\<rparr> ''carol'' = Inr Allow"
    by (simp only: w) simp
  from h1 h3 a b c d e show ?thesis by (intro conjI)
qed

text \<open>
  Claim C2. Under the same conditions on the rules before \<open>r\<close> and on the week day
  entries of \<open>r\<close>, the result of the whole scan is the result of the scan of \<open>r\<close>
  alone with the matching entry as its only entry: the rules behind \<open>r\<close> and the
  entries of \<open>r\<close> behind the first match have no influence, whatever they hold.
\<close>

theorem first_match_only:
  assumes "list_all (\<lambda>p. silent_on p (tm_wday now)) pre"
    and "wday r = map Stored ds @ Stored (tm_wday now) # ws"
    and "tm_wday now \<notin> set ds"
  shows "search_intervals (pre @ r # post) now user_name =
     search_intervals [r\<lparr>wday := [Stored (tm_wday now)]\<rparr>] now user_name"
proof -
  let ?r' = "r\<lparr>wday := [Stored (tm_wday now)]\<rparr>"
  have c: "check_time ?r' now user_name = check_time r now user_name"
    by (simp add: check_time_def Let_def cong: if_cong)
  have f: "free_roles (roles ?r') = free_roles (roles r)"
    by simp
  have "search_intervals [?r'] now user_name =
     (case check_time ?r' now user_name of
        Inl e \<Rightarrow> Inl e
      | Inr Deny \<Rightarrow> Inr Deny
      | Inr Allow \<Rightarrow> (case free_roles (roles ?r') of Inl e \<Rightarrow> Inl e | Inr _ \<Rightarrow> Inr Allow))"
    by simp
  then show ?thesis
    unfolding c f by (simp only: search_first_match [OF assms])
qed

text \<open>
  Two rules that both list Monday: the first allows 08:00 to 18:00, the second the
  whole day. On Monday at 20:00 the first rule alone decides, and denies.
\<close>

theorem first_match_only_witness:
  "list_all (\<lambda>p. silent_on p 1) []
   \<and> (1::int) \<notin> set [2]
   \<and> search_intervals
        ([] @ \<lparr>wday = [Stored 2, Stored 1, Stored 3], start_time = \<lparr>hour = 8, minute = 0\<rparr>,
                end_time = \<lparr>hour = 18, minute = 0\<rparr>, roles = []\<rparr>
           # [\<lparr>wday = [Stored 1], start_time = \<lparr>hour = 0, minute = 0\<rparr>,
                end_time = \<lparr>hour = 23, minute = 59\<rparr>, roles = []\<rparr>])
        \<lparr>tm_wday = 1, tm_hour = 20, tm_min = 0\<rparr> ''dave'' = Inr Deny
   \<and> search_intervals
        [\<lparr>wday = [Stored 1], start_time = \<lparr>hour = 0, minute = 0\<rparr>,
                end_time = \<lparr>hour = 23, minute = 59\<rparr>, roles = []\<rparr>]
        \<lparr>tm_wday = 1, tm_hour = 20, tm_min = 0\<rparr> ''dave'' = Inr Allow"
proof -
  let ?r1 = "\<lparr>wday = [Stored 2, Stored 1, Stored 3], start_time = \<lparr>hour = 8, minute = 0\<rparr>,
                end_time = \<lparr>hour = 18, minute = 0\<rparr>, roles = []\<rparr>"
  let ?r2 = "\<lparr>wday = [Stored 1], start_time = \<lparr>hour = 0, minute = 0\<rparr>,
                end_time = \<lparr>hour = 23, minute = 59\<rparr>, roles = []\<rparr>"
  let ?now = "\<lparr>tm_wday = 1, tm_hour = 20, tm_min = 0\<rparr>"
  have h1: "list_all (\<lambda>p. silent_on p (tm_wday ?now)) []" by simp
  have h2: "wday ?r1 = map Stored [2] @ Stored (tm_wday ?now) # [Stored 3]" by simp
  have h3: "tm_wday ?now \<notin> set [2]" by simp
  have "search_intervals ([] @ ?r1 # [?r2]) ?now ''dave''
      = search_intervals [?r1\<lparr>wday := [Stored (tm_wday ?now)]\<rparr>] ?now ''dave''"
    by (rule first_match_only [OF h1 h2 h3])
  also have "\<dots> = Inr Deny"
    by (simp add: check_time_def)
  finally have a: "search_intervals ([] @ ?r1 # [?r2]) ?now ''dave'' = Inr Deny" .
  have b: "search_intervals [?r2] ?now ''dave'' = Inr Allow"
    by (simp add: check_time_def)
  from h1 h3 a b show ?thesis by simp
qed

text \<open>
  Claim C3. Without an interval setting the function does nothing and the verdict
  is \<open>Allow\<close>; the scan of no rules is \<open>Allow\<close>; and when every rule is silent on
  the current week day the scan is \<open>Allow\<close>, for every time of the day, every user
  name and all roles. The last conjunct says the same of \<^verbatim>\<open>block_access_checks\<close> for
  two settings that \<^verbatim>\<open>parse_options\<close> parses into such rules.
\<close>

theorem no_match_allow:
  "block_access_checks status_ok None exclude_roles user_name now = Inr Allow
   \<and> search_intervals [] now user_name = Inr Allow
   \<and> (list_all (\<lambda>p. silent_on p (tm_wday now)) intervals \<longrightarrow>
        search_intervals intervals now user_name = Inr Allow)
   \<and> (count_list iv CHR '';'' = count_list ro CHR '';''
        \<and> parse_options (Some iv) (Some ro) None
              (replicate (Suc (count_list iv CHR '';'')) zero_interval)
              (Suc (count_list iv CHR '';'')) = Inr intervals
        \<and> list_all (\<lambda>p. silent_on p (tm_wday now)) intervals \<longrightarrow>
        block_access_checks True (Some iv) (Some ro) user_name now = Inr Allow)"
proof -
  have a: "block_access_checks status_ok None exclude_roles user_name now = Inr Allow"
    by (simp add: block_access_checks_def)
  have b: "search_intervals [] now user_name = Inr Allow"
    by simp
  have c: "list_all (\<lambda>p. silent_on p (tm_wday now)) intervals \<longrightarrow>
        search_intervals intervals now user_name = Inr Allow"
    using search_skip [of now intervals "[]" user_name] by simp
  have d: "count_list iv CHR '';'' = count_list ro CHR '';''
        \<and> parse_options (Some iv) (Some ro) None
              (replicate (Suc (count_list iv CHR '';'')) zero_interval)
              (Suc (count_list iv CHR '';'')) = Inr intervals
        \<and> list_all (\<lambda>p. silent_on p (tm_wday now)) intervals \<longrightarrow>
        block_access_checks True (Some iv) (Some ro) user_name now = Inr Allow"
  proof (intro impI)
    assume h: "count_list iv CHR '';'' = count_list ro CHR '';''
        \<and> parse_options (Some iv) (Some ro) None
              (replicate (Suc (count_list iv CHR '';'')) zero_interval)
              (Suc (count_list iv CHR '';'')) = Inr intervals
        \<and> list_all (\<lambda>p. silent_on p (tm_wday now)) intervals"
    have "block_access_checks True (Some iv) (Some ro) user_name now
        = search_intervals intervals now user_name"
      by (rule block_access_checks_parsed
          [OF h [THEN conjunct1] h [THEN conjunct2, THEN conjunct1]])
    also have "\<dots> = Inr Allow"
      by (rule c [THEN mp, OF h [THEN conjunct2, THEN conjunct2]])
    finally show "block_access_checks True (Some iv) (Some ro) user_name now = Inr Allow" .
  qed
  from a b c d show ?thesis by (intro conjI)
qed

text \<open>The policy \<^verbatim>\<open>sat - 08:00 - 12:00\<close> with the role \<^verbatim>\<open>carol\<close>, on a Tuesday.\<close>

theorem no_match_allow_witness:
  "parse_options (Some ''sat - 08:00 - 12:00'') (Some ''carol'') None
       (replicate (Suc (count_list ''sat - 08:00 - 12:00'' CHR '';'')) zero_interval)
       (Suc (count_list ''sat - 08:00 - 12:00'' CHR '';''))
     = Inr [\<lparr>wday = [Stored 6], start_time = \<lparr>hour = 8, minute = 0\<rparr>,
             end_time = \<lparr>hour = 12, minute = 0\<rparr>, roles = [Stored (Some ''carol'')]\<rparr>]
   \<and> list_all (\<lambda>p. silent_on p 2)
     [\<lparr>wday = [Stored 6], start_time = \<lparr>hour = 8, minute = 0\<rparr>,
       end_time = \<lparr>hour = 12, minute = 0\<rparr>, roles = [Stored (Some ''carol'')]\<rparr>]
   \<and> search_intervals
     [\<lparr>wday = [Stored 6], start_time = \<lparr>hour = 8, minute = 0\<rparr>,
       end_time = \<lparr>hour = 12, minute = 0\<rparr>, roles = [Stored (Some ''carol'')]\<rparr>]
     \<lparr>tm_wday = 2, tm_hour = 23, tm_min = 59\<rparr> ''dave'' = Inr Allow
   \<and> block_access_checks True (Some ''sat - 08:00 - 12:00'') (Some ''carol'') ''dave''
       \<lparr>tm_wday = 2, tm_hour = 23, tm_min = 59\<rparr> = Inr Allow"
proof -
  let ?r = "\<lparr>wday = [Stored 6], start_time = \<lparr>hour = 8, minute = 0\<rparr>,
       end_time = \<lparr>hour = 12, minute = 0\<rparr>, roles = [Stored (Some ''carol'')]\<rparr>"
  let ?now = "\<lparr>tm_wday = 2, tm_hour = 23, tm_min = 59\<rparr>"
  have p: "parse_options (Some ''sat - 08:00 - 12:00'') (Some ''carol'') None
       (replicate (Suc (count_list ''sat - 08:00 - 12:00'' CHR '';'')) zero_interval)
       (Suc (count_list ''sat - 08:00 - 12:00'' CHR '';'')) = Inr [?r]"
    by code_simp
  have k: "count_list ''sat - 08:00 - 12:00'' CHR '';'' = count_list ''carol'' CHR '';''"
    by code_simp
  have h: "list_all (\<lambda>p. silent_on p (tm_wday ?now)) [?r]"
    by (simp add: silent_on_def)
  note w = no_match_allow [of _ _ _ ?now "[?r]" "''sat - 08:00 - 12:00''" "''carol''"]
  have s: "search_intervals [?r] ?now ''dave'' = Inr Allow"
    using w [THEN conjunct2, THEN conjunct2, THEN conjunct1, of "''dave''"] h by (rule mp)
  have b: "block_access_checks True (Some ''sat - 08:00 - 12:00'') (Some ''carol'') ''dave'' ?now
      = Inr Allow"
    using w [THEN conjunct2, THEN conjunct2, THEN conjunct2, of "''dave''"] k p h by blast
  from h have h': "list_all (\<lambda>p. silent_on p 2) [?r]" by simp
  from p h' s b show ?thesis by (intro conjI)
qed

text \<open>
  Claim C6. Under the conditions of claim C1, a rule whose start time in minutes
  is greater than its end time in minutes has no current time inside its window:
  the verdict is \<open>Allow\<close> exactly when the user name is one of the names of the
  rule, and \<open>Deny\<close> otherwise, at every time of the day.
\<close>

theorem inverted_window:
  assumes "list_all (\<lambda>p. silent_on p (tm_wday now)) pre"
    and "wday r = map Stored ds @ Stored (tm_wday now) # ws"
    and "tm_wday now \<notin> set ds"
    and "roles r = map (\<lambda>n. Stored (Some n)) excluded_principals"
    and "hour (start_time r) * 60 + minute (start_time r)
           > hour (end_time r) * 60 + minute (end_time r)"
  shows "search_intervals (pre @ r # post) now user_name =
     Inr (if user_name \<in> set excluded_principals then Allow else Deny)"
proof -
  have "tm_hour now * 60 + tm_min now < hour (start_time r) * 60 + minute (start_time r)
      \<or> hour (end_time r) * 60 + minute (end_time r) < tm_hour now * 60 + tm_min now"
    using assms(5) by linarith
  then show ?thesis
    using assms(4)
    by (simp add: search_first_match [OF assms(1-3)] check_time_def find_role_names
        free_roles_names)
qed

text \<open>The rule \<^verbatim>\<open>mon - 18:00 - 08:00\<close> with the role \<^verbatim>\<open>carol\<close>, on Monday at noon.\<close>

theorem inverted_window_witness:
  "list_all (\<lambda>p. silent_on p 1) []
   \<and> (1::int) \<notin> set []
   \<and> (8::int) * 60 + 0 < 18 * 60 + 0
   \<and> search_intervals ([] @ \<lparr>wday = [Stored 1], start_time = \<lparr>hour = 18, minute = 0\<rparr>,
        end_time = \<lparr>hour = 8, minute = 0\<rparr>, roles = [Stored (Some ''carol'')]\<rparr> # [])
       \<lparr>tm_wday = 1, tm_hour = 12, tm_min = 0\<rparr> ''dave''
     = Inr (if ''dave'' \<in> set [''carol''] then Allow else Deny)"
proof -
  let ?r = "\<lparr>wday = [Stored 1], start_time = \<lparr>hour = 18, minute = 0\<rparr>,
        end_time = \<lparr>hour = 8, minute = 0\<rparr>, roles = [Stored (Some ''carol'')]\<rparr>"
  let ?now = "\<lparr>tm_wday = 1, tm_hour = 12, tm_min = 0\<rparr>"
  have h1: "list_all (\<lambda>p. silent_on p (tm_wday ?now)) []" by simp
  have h2: "wday ?r = map Stored [] @ Stored (tm_wday ?now) # []" by simp
  have h3: "tm_wday ?now \<notin> set []" by simp
  have h4: "roles ?r = map (\<lambda>n. Stored (Some n)) [''carol'']" by simp
  have h5: "hour (start_time ?r) * 60 + minute (start_time ?r)
           > hour (end_time ?r) * 60 + minute (end_time ?r)" by simp
  have "search_intervals ([] @ ?r # []) ?now ''dave''
     = Inr (if ''dave'' \<in> set [''carol''] then Allow else Deny)"
    by (rule inverted_window [OF h1 h2 h3 h4 h5])
  with h1 h3 show ?thesis by simp
qed

section \<open>The count of the groups\<close>

text \<open>
  Claim C4. When the interval string and the role string do not have the same
  number of groups between semicolons, \<^verbatim>\<open>block_access_checks\<close> ends with the error
  of line 459, for every user name and every time: nothing is parsed, no rule is
  looked at and there is no verdict.
\<close>

theorem group_count_mismatch:
  assumes "length (split_all CHR '';'' iv) \<noteq> length (split_all CHR '';'' ro)"
  shows "block_access_checks True (Some iv) (Some ro) user_name now = Inl GroupCountMismatch"
  using assms by (simp add: block_access_checks_def length_split_all)

theorem group_count_mismatch_witness:
  "length (split_all CHR '';'' ''mon-08:00-18:00'') \<noteq> length (split_all CHR '';'' ''a;b'')
   \<and> block_access_checks True (Some ''mon-08:00-18:00'') (Some ''a;b'') ''alice''
        \<lparr>tm_wday = 1, tm_hour = 9, tm_min = 30\<rparr> = Inl GroupCountMismatch"
proof -
  have h: "length (split_all CHR '';'' ''mon-08:00-18:00'') \<noteq> length (split_all CHR '';'' ''a;b'')"
    by simp
  show ?thesis
    by (rule conjI [OF h group_count_mismatch [OF h]])
qed

section \<open>Tokens and groups\<close>

lemma split_all_unfold:
  "split_all d s = takeWhile (\<lambda>c. c \<noteq> d) s
     # (if dropWhile (\<lambda>c. c \<noteq> d) s = [] then []
        else split_all d (drop 1 (dropWhile (\<lambda>c. c \<noteq> d) s)))"
  by (induction s) (auto split: list.splits simp: split_all_not_Nil)

lemma filter_split_all_skip:
  "filter (\<lambda>g. g \<noteq> []) (split_all d (dropWhile (\<lambda>c. c = d) s))
     = filter (\<lambda>g. g \<noteq> []) (split_all d s)"
  by (induction s) auto

lemma strtok_tokens_single:
  "strtok_tokens [d] s =
     (if dropWhile (\<lambda>c. c = d) s = [] then []
      else takeWhile (\<lambda>c. c \<noteq> d) (dropWhile (\<lambda>c. c = d) s)
           # strtok_tokens [d] (drop 1 (dropWhile (\<lambda>c. c \<noteq> d) (dropWhile (\<lambda>c. c = d) s))))"
  by (subst strtok_tokens.simps) (simp add: Let_def)

lemma split_all_last_group:
  "dropWhile (\<lambda>c. c \<noteq> d) x = [] \<Longrightarrow> split_all d x = [takeWhile (\<lambda>c. c \<noteq> d) x]"
  by (subst split_all_unfold) simp

lemma split_all_next_group:
  assumes "dropWhile (\<lambda>c. c \<noteq> d) x \<noteq> []"
  shows "split_all d x = takeWhile (\<lambda>c. c \<noteq> d) x # split_all d (drop 1 (dropWhile (\<lambda>c. c \<noteq> d) x))"
proof -
  have "split_all d x = takeWhile (\<lambda>c. c \<noteq> d) x
     # (if dropWhile (\<lambda>c. c \<noteq> d) x = [] then []
        else split_all d (drop 1 (dropWhile (\<lambda>c. c \<noteq> d) x)))"
    by (rule split_all_unfold)
  also have "(if dropWhile (\<lambda>c. c \<noteq> d) x = [] then []
        else split_all d (drop 1 (dropWhile (\<lambda>c. c \<noteq> d) x)))
     = split_all d (drop 1 (dropWhile (\<lambda>c. c \<noteq> d) x))"
    using assms by (simp only: if_False)
  finally show ?thesis .
qed

lemma strtok_tokens_Nil: "strtok_tokens ds [] = []"
  by (subst strtok_tokens.simps) simp


lemma strtok_tokens_split_all:
  "strtok_tokens [d] s = filter (\<lambda>g. g \<noteq> []) (split_all d s)"
proof (induction "[d]" s rule: strtok_tokens.induct)
  case (1 s)
  define s1 where "s1 = dropWhile (\<lambda>c. c = d) s"
  define p where "p = dropWhile (\<lambda>c. c \<noteq> d) s1"
  have skip: "filter (\<lambda>g. g \<noteq> []) (split_all d s) = filter (\<lambda>g. g \<noteq> []) (split_all d s1)"
    unfolding s1_def by (simp only: filter_split_all_skip)
  have st: "strtok_tokens [d] s =
     (if s1 = [] then [] else takeWhile (\<lambda>c. c \<noteq> d) s1 # strtok_tokens [d] (drop 1 p))"
    unfolding s1_def p_def by (rule strtok_tokens_single)
  show ?case
  proof (cases "s1 = []")
    case True
    then show ?thesis
      by (simp add: skip st)
  next
    case False
    then have "hd s1 \<noteq> d"
      unfolding s1_def using hd_dropWhile [of "\<lambda>c. c = d" s] by simp
    with False have tk: "takeWhile (\<lambda>c. c \<noteq> d) s1 \<noteq> []"
      by (cases s1) auto
    have ih: "strtok_tokens [d] (drop 1 p) = filter (\<lambda>g. g \<noteq> []) (split_all d (drop 1 p))"
      using "1.hyps" [of s1] False unfolding s1_def p_def by simp
    show ?thesis
    proof (cases "p = []")
      case True
      then have "split_all d s1 = [takeWhile (\<lambda>c. c \<noteq> d) s1]"
        unfolding p_def by (rule split_all_last_group)
      then show ?thesis
        using tk False True by (simp add: skip st strtok_tokens_Nil)
    next
      case False2: False
      then have "split_all d s1 = takeWhile (\<lambda>c. c \<noteq> d) s1 # split_all d (drop 1 p)"
        unfolding p_def by (rule split_all_next_group)
      then show ?thesis
        using tk False ih by (simp add: skip st)
    qed
  qed
qed


lemma split_all_no_delim: "g \<in> set (split_all d s) \<Longrightarrow> d \<notin> set g"
  by (induction s arbitrary: g) (auto split: list.splits if_splits)

lemma length_strtok_tokens: "length (strtok_tokens [d] s) \<le> Suc (count_list s d)"
  unfolding strtok_tokens_split_all length_split_all [symmetric] by (rule length_filter_le)

lemma strtok_tokens_token:
  "t \<in> set (strtok_tokens [d] s) \<Longrightarrow> t \<noteq> [] \<and> d \<notin> set t"
  by (auto simp: strtok_tokens_split_all split_all_no_delim)

lemma split_all_append:
  "d \<notin> set a \<Longrightarrow> split_all d (a @ d # rest) = a # split_all d rest"
  by (induction a) (auto split: list.splits simp: split_all_not_Nil)

lemma split_all_single: "d \<notin> set c \<Longrightarrow> split_all d c = [c]"
  by (induction c) auto

lemma strtok_tokens_three:
  assumes "strtok_tokens [d] s = p1 # p2 # p3 # extra"
  shows "strtok_tokens [d] (p1 @ [d] @ p2 @ [d] @ p3) = [p1, p2, p3]"
proof -
  have "p1 \<in> set (strtok_tokens [d] s)" "p2 \<in> set (strtok_tokens [d] s)"
    "p3 \<in> set (strtok_tokens [d] s)"
    unfolding assms by simp_all
  then have "p1 \<noteq> [] \<and> d \<notin> set p1" "p2 \<noteq> [] \<and> d \<notin> set p2" "p3 \<noteq> [] \<and> d \<notin> set p3"
    by (simp_all add: strtok_tokens_token)
  then show ?thesis
    by (simp add: strtok_tokens_split_all split_all_append split_all_single)
qed

section \<open>Interval groups\<close>

lemma parse_interval_parts:
  assumes "strtok_tokens ''-'' s = p1 # p2 # p3 # extra"
    and "trim (Some p1) = Some weekday_str"
    and "parse_wdays (strtok_tokens '','' weekday_str) weekday_str = Inr ds"
  shows "parse_interval interval (Some s) =
     (case parse_time Start (trim (Some p2)) of
        Inl e \<Rightarrow> Inl e
      | Inr st \<Rightarrow>
          (case parse_time End (trim (Some p3)) of
             Inl e \<Rightarrow> Inl e
           | Inr et \<Rightarrow>
               Inr (interval
                 \<lparr>wday := map Stored ds
                    @ replicate (Suc (count_list weekday_str CHR '','') - length ds) Uninit,
                  start_time := st,
                  end_time := et\<rparr>)))"
  using assms by (simp add: parse_interval_def)

lemma parse_time_pieces:
  assumes "strtok_tokens '':'' tok = h # m # rest"
    and "atoi h = Inr hv" and "atoi m = Inr mv"
  shows "parse_time b (Some tok) =
     (if hv < 0 \<or> 23 < hv then Inl (HourOutOfRange b hv)
      else if mv < 0 \<or> 59 < mv then Inl (MinuteOutOfRange b mv)
      else Inr \<lparr>hour = hv, minute = mv\<rparr>)"
  using assms by (simp add: parse_time_def)

lemma parse_interval_pieces:
  assumes "strtok_tokens ''-'' s = p1 # p2 # p3 # extra"
    and "trim (Some p1) = Some weekday_str"
    and "parse_wdays (strtok_tokens '','' weekday_str) weekday_str = Inr ds"
    and "trim (Some p2) = Some st"
    and "trim (Some p3) = Some en"
    and "strtok_tokens '':'' st = sh # sm # sr" and "strtok_tokens '':'' en = eh # em # er"
    and "atoi sh = Inr shv" and "atoi sm = Inr smv" and "atoi eh = Inr ehv" and "atoi em = Inr emv"
  shows "parse_interval interval (Some s) =
     (if shv < 0 \<or> 23 < shv then Inl (HourOutOfRange Start shv)
      else if smv < 0 \<or> 59 < smv then Inl (MinuteOutOfRange Start smv)
      else if ehv < 0 \<or> 23 < ehv then Inl (HourOutOfRange End ehv)
      else if emv < 0 \<or> 59 < emv then Inl (MinuteOutOfRange End emv)
      else Inr (interval
              \<lparr>wday := map Stored ds
                 @ replicate (Suc (count_list weekday_str CHR '','') - length ds) Uninit,
               start_time := \<lparr>hour = shv, minute = smv\<rparr>,
               end_time := \<lparr>hour = ehv, minute = emv\<rparr>\<rparr>))"
  by (simp add: parse_interval_parts [OF assms(1-3)] assms(4,5)
      parse_time_pieces [OF assms(6,8,9)] parse_time_pieces [OF assms(7,10,11)] del: trim.simps)

lemma parse_interval_success:
  assumes "strtok_tokens ''-'' s = p1 # p2 # p3 # extra"
  shows "(\<exists>r. parse_interval interval (Some s) = Inr r)
     = (\<exists>weekday_str ds st et.
          trim (Some p1) = Some weekday_str
          \<and> parse_wdays (strtok_tokens '','' weekday_str) weekday_str = Inr ds
          \<and> parse_time Start (trim (Some p2)) = Inr st
          \<and> parse_time End (trim (Some p3)) = Inr et)"
proof (cases "trim (Some p1)")
  case None
  then show ?thesis
    using assms by (simp add: parse_interval_def del: trim.simps)
next
  case (Some weekday_str)
  show ?thesis
  proof (cases "parse_wdays (strtok_tokens '','' weekday_str) weekday_str")
    case (Inl e)
    then show ?thesis
      using assms Some by (simp add: parse_interval_def del: trim.simps)
  next
    case (Inr ds)
    show ?thesis
      unfolding parse_interval_parts [OF assms Some Inr] Some
      using Inr by (auto split: sum.splits simp del: trim.simps)
  qed
qed

text \<open>
  Claim C10, amended. When \<^verbatim>\<open>strtok\<close> finds three parts or more between dashes in an
  interval group, \<^verbatim>\<open>parse_interval\<close> does with the group what it does with its
  first three parts alone, and the parts behind the third are never looked at.
  The first part is the week day list, the second the start time and the third
  the end time: when the three parse, the group is parsed into the rule with
  these week days and times; an error of the week day list, else of the start
  time, else of the end time is the error of the group. So the group is parsed
  exactly when its first three parts are.
\<close>

theorem extra_parts_ignored:
  assumes "strtok_tokens ''-'' s = p1 # p2 # p3 # extra"
  shows "parse_interval interval (Some s)
       = parse_interval interval (Some (p1 @ ''-'' @ p2 @ ''-'' @ p3))
   \<and> (trim (Some p1) = Some weekday_str
        \<and> parse_wdays (strtok_tokens '','' weekday_str) weekday_str = Inr ds
        \<and> parse_time Start (trim (Some p2)) = Inr st
        \<and> parse_time End (trim (Some p3)) = Inr et
       \<longrightarrow> parse_interval interval (Some s) =
            Inr (interval
              \<lparr>wday := map Stored ds
                 @ replicate (Suc (count_list weekday_str CHR '','') - length ds) Uninit,
               start_time := st,
               end_time := et\<rparr>))
   \<and> (trim (Some p1) = Some weekday_str
        \<and> parse_wdays (strtok_tokens '','' weekday_str) weekday_str = Inl e
       \<longrightarrow> parse_interval interval (Some s) = Inl e)
   \<and> (trim (Some p1) = Some weekday_str
        \<and> parse_wdays (strtok_tokens '','' weekday_str) weekday_str = Inr ds
        \<and> parse_time Start (trim (Some p2)) = Inl e
       \<longrightarrow> parse_interval interval (Some s) = Inl e)
   \<and> (trim (Some p1) = Some weekday_str
        \<and> parse_wdays (strtok_tokens '','' weekday_str) weekday_str = Inr ds
        \<and> parse_time Start (trim (Some p2)) = Inr st
        \<and> parse_time End (trim (Some p3)) = Inl e
       \<longrightarrow> parse_interval interval (Some s) = Inl e)
   \<and> ((\<exists>r. parse_interval interval (Some s) = Inr r)
       = (\<exists>weekday_str ds st et.
            trim (Some p1) = Some weekday_str
            \<and> parse_wdays (strtok_tokens '','' weekday_str) weekday_str = Inr ds
            \<and> parse_time Start (trim (Some p2)) = Inr st
            \<and> parse_time End (trim (Some p3)) = Inr et))"
proof -
  have t: "strtok_tokens ''-'' (p1 @ ''-'' @ p2 @ ''-'' @ p3) = [p1, p2, p3]"
    using assms by (rule strtok_tokens_three)
  have a: "parse_interval interval (Some s)
       = parse_interval interval (Some (p1 @ ''-'' @ p2 @ ''-'' @ p3))"
    using assms t by (simp add: parse_interval_def del: trim.simps)
  have b: "trim (Some p1) = Some weekday_str
        \<and> parse_wdays (strtok_tokens '','' weekday_str) weekday_str = Inr ds
        \<and> parse_time Start (trim (Some p2)) = Inr st
        \<and> parse_time End (trim (Some p3)) = Inr et
       \<longrightarrow> parse_interval interval (Some s) =
            Inr (interval
              \<lparr>wday := map Stored ds
                 @ replicate (Suc (count_list weekday_str CHR '','') - length ds) Uninit,
               start_time := st,
               end_time := et\<rparr>)"
    using assms by (simp add: parse_interval_def del: trim.simps)
  have c: "trim (Some p1) = Some weekday_str
        \<and> parse_wdays (strtok_tokens '','' weekday_str) weekday_str = Inl e
       \<longrightarrow> parse_interval interval (Some s) = Inl e"
    using assms by (simp add: parse_interval_def del: trim.simps)
  have d: "trim (Some p1) = Some weekday_str
        \<and> parse_wdays (strtok_tokens '','' weekday_str) weekday_str = Inr ds
        \<and> parse_time Start (trim (Some p2)) = Inl e
       \<longrightarrow> parse_interval interval (Some s) = Inl e"
    using assms by (simp add: parse_interval_def del: trim.simps)
  have f: "trim (Some p1) = Some weekday_str
        \<and> parse_wdays (strtok_tokens '','' weekday_str) weekday_str = Inr ds
        \<and> parse_time Start (trim (Some p2)) = Inr st
        \<and> parse_time End (trim (Some p3)) = Inl e
       \<longrightarrow> parse_interval interval (Some s) = Inl e"
    using assms by (simp add: parse_interval_def del: trim.simps)
  note g = parse_interval_success [OF assms, of interval]
  from a b c d f g show ?thesis by (intro conjI)
qed

text \<open>
  The group \<^verbatim>\<open>mon - 08:00 - 18:00 - 20:00\<close> gives the rule for Monday from 08:00 to
  18:00.
\<close>

theorem extra_parts_ignored_witness:
  "strtok_tokens ''-'' ''mon - 08:00 - 18:00 - 20:00'' = [''mon '', '' 08:00 '', '' 18:00 '', '' 20:00'']
   \<and> trim (Some ''mon '') = Some ''mon''
   \<and> parse_wdays (strtok_tokens '','' ''mon'') ''mon'' = Inr [1]
   \<and> parse_time Start (trim (Some '' 08:00 '')) = Inr \<lparr>hour = 8, minute = 0\<rparr>
   \<and> parse_time End (trim (Some '' 18:00 '')) = Inr \<lparr>hour = 18, minute = 0\<rparr>
   \<and> parse_interval zero_interval (Some ''mon - 08:00 - 18:00 - 20:00'')
     = parse_interval zero_interval (Some (''mon '' @ ''-'' @ '' 08:00 '' @ ''-'' @ '' 18:00 ''))
   \<and> parse_interval zero_interval (Some ''mon - 08:00 - 18:00 - 20:00'')
     = Inr \<lparr>wday = [Stored 1], start_time = \<lparr>hour = 8, minute = 0\<rparr>,
            end_time = \<lparr>hour = 18, minute = 0\<rparr>, roles = []\<rparr>"
proof -
  have h: "strtok_tokens ''-'' ''mon - 08:00 - 18:00 - 20:00''
      = ''mon '' # '' 08:00 '' # '' 18:00 '' # ['' 20:00'']"
    by code_simp
  have k1: "trim (Some ''mon '') = Some ''mon''" by code_simp
  have k2: "parse_wdays (strtok_tokens '','' ''mon'') ''mon'' = Inr [1]" by code_simp
  have k3: "parse_time Start (trim (Some '' 08:00 '')) = Inr \<lparr>hour = 8, minute = 0\<rparr>"
    by code_simp
  have k4: "parse_time End (trim (Some '' 18:00 '')) = Inr \<lparr>hour = 18, minute = 0\<rparr>"
    by code_simp
  note w = extra_parts_ignored [OF h, where interval = zero_interval]
  have a: "parse_interval zero_interval (Some ''mon - 08:00 - 18:00 - 20:00'')
     = parse_interval zero_interval (Some (''mon '' @ ''-'' @ '' 08:00 '' @ ''-'' @ '' 18:00 ''))"
    by (rule w [THEN conjunct1])
  have "parse_interval zero_interval (Some ''mon - 08:00 - 18:00 - 20:00'')
     = Inr (zero_interval
              \<lparr>wday := map Stored [1]
                 @ replicate (Suc (count_list ''mon'' CHR '','') - length [1::int]) Uninit,
               start_time := \<lparr>hour = 8, minute = 0\<rparr>,
               end_time := \<lparr>hour = 18, minute = 0\<rparr>\<rparr>)"
    by (rule w [THEN conjunct2, THEN conjunct1, THEN mp,
          OF conjI [OF k1 conjI [OF k2 conjI [OF k3 k4]]]])
  then have b: "parse_interval zero_interval (Some ''mon - 08:00 - 18:00 - 20:00'')
     = Inr \<lparr>wday = [Stored 1], start_time = \<lparr>hour = 8, minute = 0\<rparr>,
            end_time = \<lparr>hour = 18, minute = 0\<rparr>, roles = []\<rparr>"
    by (simp add: zero_interval_def)
  from h k1 k2 k3 k4 a b show ?thesis by (simp only: simp_thms)
qed

text \<open>
  The group \<^verbatim>\<open>mon - 25:00 - 18:00 - 20:00\<close> has four parts and is not parsed: its
  second part is read as the start time, and the hour 25 is out of range.
\<close>

theorem extra_parts_counterexample:
  "strtok_tokens ''-'' ''mon - 25:00 - 18:00 - 20:00''
     = [''mon '', '' 25:00 '', '' 18:00 '', '' 20:00'']
   \<and> parse_interval zero_interval (Some ''mon - 25:00 - 18:00 - 20:00'')
     = Inl (HourOutOfRange Start 25)"
  by code_simp

text \<open>
  Claim C7, amended. Take an interval group with three parts, a week day list
  that parses, and a start and an end token that are not white space. An error
  of the start token is the error of the group, and so is an error of the end
  token when the start token parses. A time token is cut at the colons by
  \<^verbatim>\<open>strtok\<close>, which skips empty pieces: the first piece is read as the hour and the
  second as the minute. A token without a piece fails as a malformed time; an
  hour outside 0..23 fails as an hour out of range, also when it is the only piece;
  a token with one piece only, in 0..23, fails as a malformed time; a minute
  outside 0..59 fails as a minute out of range.
\<close>

theorem time_token_errors:
  assumes "strtok_tokens ''-'' s = p1 # p2 # p3 # extra"
    and "trim (Some p1) = Some weekday_str"
    and "parse_wdays (strtok_tokens '','' weekday_str) weekday_str = Inr ds"
    and "trim (Some p2) = Some st"
    and "trim (Some p3) = Some en"
  shows "(parse_time Start (Some st) = Inl e \<longrightarrow> parse_interval interval (Some s) = Inl e)
   \<and> (parse_time Start (Some st) = Inr t1 \<and> parse_time End (Some en) = Inl e
        \<longrightarrow> parse_interval interval (Some s) = Inl e)
   \<and> (strtok_tokens '':'' tok = []
        \<longrightarrow> parse_time b (Some tok) = Inl (MalformedTime b Hour tok))
   \<and> (strtok_tokens '':'' tok = h # rest \<and> atoi h = Inr hv \<and> (hv < 0 \<or> 23 < hv)
        \<longrightarrow> parse_time b (Some tok) = Inl (HourOutOfRange b hv))
   \<and> (strtok_tokens '':'' tok = [h] \<and> atoi h = Inr hv \<and> 0 \<le> hv \<and> hv \<le> 23
        \<longrightarrow> parse_time b (Some tok) = Inl (MalformedTime b Minute tok))
   \<and> (strtok_tokens '':'' tok = h # m # rest \<and> atoi h = Inr hv \<and> 0 \<le> hv \<and> hv \<le> 23
          \<and> atoi m = Inr mv \<and> (mv < 0 \<or> 59 < mv)
        \<longrightarrow> parse_time b (Some tok) = Inl (MinuteOutOfRange b mv))"
proof -
  have a: "parse_time Start (Some st) = Inl e \<longrightarrow> parse_interval interval (Some s) = Inl e"
    by (simp add: parse_interval_parts [OF assms(1-3)] assms(4,5) del: trim.simps)
  have b: "parse_time Start (Some st) = Inr t1 \<and> parse_time End (Some en) = Inl e
        \<longrightarrow> parse_interval interval (Some s) = Inl e"
    by (simp add: parse_interval_parts [OF assms(1-3)] assms(4,5) del: trim.simps)
  have c: "strtok_tokens '':'' tok = []
        \<longrightarrow> parse_time b (Some tok) = Inl (MalformedTime b Hour tok)"
    by (simp add: parse_time_def)
  have d: "strtok_tokens '':'' tok = h # rest \<and> atoi h = Inr hv \<and> (hv < 0 \<or> 23 < hv)
        \<longrightarrow> parse_time b (Some tok) = Inl (HourOutOfRange b hv)"
    by (auto simp add: parse_time_def)
  have e: "strtok_tokens '':'' tok = [h] \<and> atoi h = Inr hv \<and> 0 \<le> hv \<and> hv \<le> 23
        \<longrightarrow> parse_time b (Some tok) = Inl (MalformedTime b Minute tok)"
    by (auto simp add: parse_time_def)
  have f: "strtok_tokens '':'' tok = h # m # rest \<and> atoi h = Inr hv \<and> 0 \<le> hv \<and> hv \<le> 23
          \<and> atoi m = Inr mv \<and> (mv < 0 \<or> 59 < mv)
        \<longrightarrow> parse_time b (Some tok) = Inl (MinuteOutOfRange b mv)"
    by (auto simp add: parse_time_def)
  from a b c d e f show ?thesis by (intro conjI)
qed

text \<open>The group \<^verbatim>\<open>mon - 25:00 - 18:00\<close> fails with the hour 25 out of range.\<close>

theorem time_token_errors_witness:
  "strtok_tokens ''-'' ''mon - 25:00 - 18:00'' = ''mon '' # '' 25:00 '' # '' 18:00'' # []
   \<and> strtok_tokens '':'' ''25:00'' = ''25'' # [''00'']
   \<and> atoi ''25'' = Inr 25
   \<and> parse_time Start (Some ''25:00'') = Inl (HourOutOfRange Start 25)
   \<and> parse_interval zero_interval (Some ''mon - 25:00 - 18:00'') = Inl (HourOutOfRange Start 25)"
proof -
  have h1: "strtok_tokens ''-'' ''mon - 25:00 - 18:00'' = ''mon '' # '' 25:00 '' # '' 18:00'' # []"
    by code_simp
  have h2: "trim (Some ''mon '') = Some ''mon''" by code_simp
  have h3: "parse_wdays (strtok_tokens '','' ''mon'') ''mon'' = Inr [1]" by code_simp
  have h4: "trim (Some '' 25:00 '') = Some ''25:00''" by code_simp
  have h5: "trim (Some '' 18:00'') = Some ''18:00''" by code_simp
  have t: "strtok_tokens '':'' ''25:00'' = ''25'' # [''00'']" by code_simp
  have v: "atoi ''25'' = Inr 25" by code_simp
  note w = time_token_errors [OF h1 h2 h3 h4 h5, of "HourOutOfRange Start 25" zero_interval
      _ "''25:00''" Start "''25''" "[''00'']" 25]
  from w t v have p: "parse_time Start (Some ''25:00'') = Inl (HourOutOfRange Start 25)"
    by simp
  with w have "parse_interval zero_interval (Some ''mon - 25:00 - 18:00'') = Inl (HourOutOfRange Start 25)"
    by simp
  with h1 t v p show ?thesis by simp
qed

text \<open>
  The start token \<^verbatim>\<open>:30\<close> has no hour. \<^verbatim>\<open>strtok\<close> skips the colon, 30 is read as the
  hour, and the group fails with an hour out of range, not as a malformed time.
\<close>

theorem missing_hour_counterexample:
  "parse_time Start (Some '':30'') = Inl (HourOutOfRange Start 30)
   \<and> parse_interval zero_interval (Some ''mon - :30 - 18:00'') = Inl (HourOutOfRange Start 30)"
  by code_simp

lemma isdigit_not_isspace: "isdigit c \<Longrightarrow> \<not> isspace c"
  by (auto simp: isdigit_def isspace_def Let_def)

lemma isdigit_not_sign: "isdigit c \<Longrightarrow> c \<noteq> CHR ''-'' \<and> c \<noteq> CHR ''+''"
  by (auto simp: isdigit_def)

lemma foldl_dec_nonneg:
  "list_all isdigit ds \<Longrightarrow> 0 \<le> a \<Longrightarrow> 0 \<le> foldl (\<lambda>a c. 10 * a + digit_val c) a ds"
proof (induction ds arbitrary: a)
  case Nil
  then show ?case by simp
next
  case (Cons c ds)
  from Cons.prems have "0 \<le> digit_val c"
    by (simp add: isdigit_def digit_val_def Let_def)
  with Cons.prems have "0 \<le> 10 * a + digit_val c" by simp
  with Cons show ?case by simp
qed

lemma dec_val_nonneg: "list_all isdigit ds \<Longrightarrow> 0 \<le> dec_val ds"
  unfolding dec_val_def by (rule foldl_dec_nonneg) simp_all

lemma atoi_no_number:
  assumes "\<not> isdigit c" "\<not> isspace c" "c \<noteq> CHR ''+''" "c \<noteq> CHR ''-''"
  shows "atoi (c # cs) = Inr 0"
  using assms by (simp add: atoi_def dec_val_def)

lemma atoi_digit_prefix:
  assumes "digits \<noteq> []" "list_all isdigit digits" "tail = [] \<or> \<not> isdigit (hd tail)"
    and "dec_val digits \<le> 2147483647"
  shows "atoi (digits @ tail) = Inr (dec_val digits)"
proof -
  obtain c cs where d: "digits = c # cs"
    using assms(1) by (cases digits) auto
  with assms(2) have c: "isdigit c" by simp
  have tw: "takeWhile isdigit (digits @ tail) = digits"
  proof (cases tail)
    case Nil
    with assms(2) show ?thesis by (simp add: list_all_iff)
  next
    case (Cons x xs)
    with assms(3) have "\<not> isdigit x" by simp
    with Cons assms(2) show ?thesis by (simp add: list_all_iff)
  qed
  have ge: "0 \<le> dec_val digits"
    using assms(2) by (rule dec_val_nonneg)
  have "dropWhile isspace (digits @ tail) = digits @ tail"
    using c isdigit_not_isspace [OF c] by (simp add: d)
  then show ?thesis
    using isdigit_not_sign [OF c] tw ge assms(4)
    by (simp add: atoi_def Let_def d [symmetric]) (simp add: d)
qed

text \<open>
  Claim C9, amended. \<^verbatim>\<open>atoi\<close> reads a token that starts with a character that is
  no digit, no white space and no sign as 0, and a token that starts with digits
  as the number of its leading digits (when that fits an \<^verbatim>\<open>int\<close>), whatever follows
  them. In a group with three parts, a week day list that parses and time tokens
  with an hour and a minute piece each that \<^verbatim>\<open>atoi\<close> reads, no other test is made
  on the pieces than the range of these numbers: the group fails with the first
  of the start hour, start minute, end hour and end minute that is out of range,
  and is parsed, with these numbers as its times, exactly when the hours are in
  0..23 and the minutes in 0..59.
\<close>

theorem nonnumeric_time_tokens:
  assumes "strtok_tokens ''-'' s = p1 # p2 # p3 # extra"
    and "trim (Some p1) = Some weekday_str"
    and "parse_wdays (strtok_tokens '','' weekday_str) weekday_str = Inr ds"
    and "trim (Some p2) = Some st"
    and "trim (Some p3) = Some en"
  shows "(\<not> isdigit c \<and> \<not> isspace c \<and> c \<noteq> CHR ''+'' \<and> c \<noteq> CHR ''-''
        \<longrightarrow> atoi (c # cs) = Inr 0)
   \<and> (digits \<noteq> [] \<and> list_all isdigit digits \<and> (tail = [] \<or> \<not> isdigit (hd tail))
          \<and> dec_val digits \<le> 2147483647
        \<longrightarrow> atoi (digits @ tail) = Inr (dec_val digits))
   \<and> (strtok_tokens '':'' st = sh # sm # sr \<and> strtok_tokens '':'' en = eh # em # er
          \<and> atoi sh = Inr shv \<and> atoi sm = Inr smv \<and> atoi eh = Inr ehv \<and> atoi em = Inr emv
        \<longrightarrow> parse_interval interval (Some s) =
             (if shv < 0 \<or> 23 < shv then Inl (HourOutOfRange Start shv)
              else if smv < 0 \<or> 59 < smv then Inl (MinuteOutOfRange Start smv)
              else if ehv < 0 \<or> 23 < ehv then Inl (HourOutOfRange End ehv)
              else if emv < 0 \<or> 59 < emv then Inl (MinuteOutOfRange End emv)
              else Inr (interval
                \<lparr>wday := map Stored ds
                   @ replicate (Suc (count_list weekday_str CHR '','') - length ds) Uninit,
                 start_time := \<lparr>hour = shv, minute = smv\<rparr>,
                 end_time := \<lparr>hour = ehv, minute = emv\<rparr>\<rparr>))
           \<and> ((\<exists>r. parse_interval interval (Some s) = Inr r)
                = (0 \<le> shv \<and> shv \<le> 23 \<and> 0 \<le> smv \<and> smv \<le> 59
                   \<and> 0 \<le> ehv \<and> ehv \<le> 23 \<and> 0 \<le> emv \<and> emv \<le> 59)))"
proof -
  have a: "\<not> isdigit c \<and> \<not> isspace c \<and> c \<noteq> CHR ''+'' \<and> c \<noteq> CHR ''-''
        \<longrightarrow> atoi (c # cs) = Inr 0"
    by (simp add: atoi_no_number)
  have b: "digits \<noteq> [] \<and> list_all isdigit digits \<and> (tail = [] \<or> \<not> isdigit (hd tail))
          \<and> dec_val digits \<le> 2147483647
        \<longrightarrow> atoi (digits @ tail) = Inr (dec_val digits)"
    using atoi_digit_prefix [of digits tail] by blast
  have c: "strtok_tokens '':'' st = sh # sm # sr \<and> strtok_tokens '':'' en = eh # em # er
          \<and> atoi sh = Inr shv \<and> atoi sm = Inr smv \<and> atoi eh = Inr ehv \<and> atoi em = Inr emv
        \<longrightarrow> parse_interval interval (Some s) =
             (if shv < 0 \<or> 23 < shv then Inl (HourOutOfRange Start shv)
              else if smv < 0 \<or> 59 < smv then Inl (MinuteOutOfRange Start smv)
              else if ehv < 0 \<or> 23 < ehv then Inl (HourOutOfRange End ehv)
              else if emv < 0 \<or> 59 < emv then Inl (MinuteOutOfRange End emv)
              else Inr (interval
                \<lparr>wday := map Stored ds
                   @ replicate (Suc (count_list weekday_str CHR '','') - length ds) Uninit,
                 start_time := \<lparr>hour = shv, minute = smv\<rparr>,
                 end_time := \<lparr>hour = ehv, minute = emv\<rparr>\<rparr>))
           \<and> ((\<exists>r. parse_interval interval (Some s) = Inr r)
                = (0 \<le> shv \<and> shv \<le> 23 \<and> 0 \<le> smv \<and> smv \<le> 59
                   \<and> 0 \<le> ehv \<and> ehv \<le> 23 \<and> 0 \<le> emv \<and> emv \<le> 59))"
  proof (intro impI)
    assume h: "strtok_tokens '':'' st = sh # sm # sr \<and> strtok_tokens '':'' en = eh # em # er
          \<and> atoi sh = Inr shv \<and> atoi sm = Inr smv \<and> atoi eh = Inr ehv \<and> atoi em = Inr emv"
    have e: "parse_interval interval (Some s) =
             (if shv < 0 \<or> 23 < shv then Inl (HourOutOfRange Start shv)
              else if smv < 0 \<or> 59 < smv then Inl (MinuteOutOfRange Start smv)
              else if ehv < 0 \<or> 23 < ehv then Inl (HourOutOfRange End ehv)
              else if emv < 0 \<or> 59 < emv then Inl (MinuteOutOfRange End emv)
              else Inr (interval
                \<lparr>wday := map Stored ds
                   @ replicate (Suc (count_list weekday_str CHR '','') - length ds) Uninit,
                 start_time := \<lparr>hour = shv, minute = smv\<rparr>,
                 end_time := \<lparr>hour = ehv, minute = emv\<rparr>\<rparr>))"
      by (rule parse_interval_pieces [OF assms h [THEN conjunct1]
            h [THEN conjunct2, THEN conjunct1]
            h [THEN conjunct2, THEN conjunct2, THEN conjunct1]
            h [THEN conjunct2, THEN conjunct2, THEN conjunct2, THEN conjunct1]
            h [THEN conjunct2, THEN conjunct2, THEN conjunct2, THEN conjunct2, THEN conjunct1]
            h [THEN conjunct2, THEN conjunct2, THEN conjunct2, THEN conjunct2, THEN conjunct2]])
    have "(\<exists>r. parse_interval interval (Some s) = Inr r)
                = (0 \<le> shv \<and> shv \<le> 23 \<and> 0 \<le> smv \<and> smv \<le> 59
                   \<and> 0 \<le> ehv \<and> ehv \<le> 23 \<and> 0 \<le> emv \<and> emv \<le> 59)"
      unfolding e by (auto simp: not_less not_le)
    with e show "parse_interval interval (Some s) =
             (if shv < 0 \<or> 23 < shv then Inl (HourOutOfRange Start shv)
              else if smv < 0 \<or> 59 < smv then Inl (MinuteOutOfRange Start smv)
              else if ehv < 0 \<or> 23 < ehv then Inl (HourOutOfRange End ehv)
              else if emv < 0 \<or> 59 < emv then Inl (MinuteOutOfRange End emv)
              else Inr (interval
                \<lparr>wday := map Stored ds
                   @ replicate (Suc (count_list weekday_str CHR '','') - length ds) Uninit,
                 start_time := \<lparr>hour = shv, minute = smv\<rparr>,
                 end_time := \<lparr>hour = ehv, minute = emv\<rparr>\<rparr>))
           \<and> ((\<exists>r. parse_interval interval (Some s) = Inr r)
                = (0 \<le> shv \<and> shv \<le> 23 \<and> 0 \<le> smv \<and> smv \<le> 59
                   \<and> 0 \<le> ehv \<and> ehv \<le> 23 \<and> 0 \<le> emv \<and> emv \<le> 59))"
      by (rule conjI)
  qed
  from a b c show ?thesis by (intro conjI)
qed

text \<open>The group \<^verbatim>\<open>mon - ab:cd - 18:00\<close> is parsed with the start time 00:00.\<close>

theorem nonnumeric_time_tokens_witness:
  "strtok_tokens ''-'' ''mon - ab:cd - 18:00'' = ''mon '' # '' ab:cd '' # '' 18:00'' # []
   \<and> atoi ''ab'' = Inr 0 \<and> atoi ''cd'' = Inr 0
   \<and> atoi (''18'' @ ''h'') = Inr (dec_val ''18'')
   \<and> parse_interval zero_interval (Some ''mon - ab:cd - 18:00'')
     = Inr \<lparr>wday = [Stored 1], start_time = \<lparr>hour = 0, minute = 0\<rparr>,
            end_time = \<lparr>hour = 18, minute = 0\<rparr>, roles = []\<rparr>
   \<and> (\<exists>r. parse_interval zero_interval (Some ''mon - ab:cd - 18:00'') = Inr r)"
proof -
  have h1: "strtok_tokens ''-'' ''mon - ab:cd - 18:00'' = ''mon '' # '' ab:cd '' # '' 18:00'' # []"
    by code_simp
  have h2: "trim (Some ''mon '') = Some ''mon''" by code_simp
  have h3: "parse_wdays (strtok_tokens '','' ''mon'') ''mon'' = Inr [1]" by code_simp
  have h4: "trim (Some '' ab:cd '') = Some ''ab:cd''" by code_simp
  have h5: "trim (Some '' 18:00'') = Some ''18:00''" by code_simp
  note w = nonnumeric_time_tokens [OF h1 h2 h3 h4 h5]
  have na: "\<not> isdigit CHR ''a'' \<and> \<not> isspace CHR ''a'' \<and> CHR ''a'' \<noteq> CHR ''+'' \<and> CHR ''a'' \<noteq> CHR ''-''"
    by code_simp
  have nc: "\<not> isdigit CHR ''c'' \<and> \<not> isspace CHR ''c'' \<and> CHR ''c'' \<noteq> CHR ''+'' \<and> CHR ''c'' \<noteq> CHR ''-''"
    by code_simp
  have a: "atoi ''ab'' = Inr 0"
    using w [THEN conjunct1, of "CHR ''a''" "''b''"] na by (rule mp)
  have c: "atoi ''cd'' = Inr 0"
    using w [THEN conjunct1, of "CHR ''c''" "''d''"] nc by (rule mp)
  have dg: "''18'' \<noteq> [] \<and> list_all isdigit ''18'' \<and> (''h'' = [] \<or> \<not> isdigit (hd ''h''))
          \<and> dec_val ''18'' \<le> 2147483647"
    by code_simp
  have p: "atoi (''18'' @ ''h'') = Inr (dec_val ''18'')"
    using w [THEN conjunct2, THEN conjunct1, of "''18''" "''h''"] dg by (rule mp)
  have t1: "strtok_tokens '':'' ''ab:cd'' = ''ab'' # ''cd'' # []" by code_simp
  have t2: "strtok_tokens '':'' ''18:00'' = ''18'' # ''00'' # []" by code_simp
  have v1: "atoi ''18'' = Inr 18" by code_simp
  have v2: "atoi ''00'' = Inr 0" by code_simp
  have k: "strtok_tokens '':'' ''ab:cd'' = ''ab'' # ''cd'' # []
      \<and> strtok_tokens '':'' ''18:00'' = ''18'' # ''00'' # []
      \<and> atoi ''ab'' = Inr 0 \<and> atoi ''cd'' = Inr 0 \<and> atoi ''18'' = Inr 18 \<and> atoi ''00'' = Inr 0"
    using t1 t2 a c v1 v2 by (intro conjI)
  note q = nonnumeric_time_tokens [where sh = "''ab''" and sm = "''cd''"
      and sr = "[]" and eh = "''18''" and em = "''00''" and er = "[]"
      and shv = 0 and smv = 0 and ehv = 18 and emv = 0 and interval = zero_interval,
      OF h1 h2 h3 h4 h5, THEN conjunct2, THEN conjunct2, THEN mp, OF k]
  from q have e: "parse_interval zero_interval (Some ''mon - ab:cd - 18:00'')
     = Inr \<lparr>wday = [Stored 1], start_time = \<lparr>hour = 0, minute = 0\<rparr>,
            end_time = \<lparr>hour = 18, minute = 0\<rparr>, roles = []\<rparr>"
    by (simp add: zero_interval_def)
  from q have x: "\<exists>r. parse_interval zero_interval (Some ''mon - ab:cd - 18:00'') = Inr r"
    by simp
  from h1 a c p e x show ?thesis by (intro conjI)
qed

text \<open>
  The hour token \<^verbatim>\<open>99x\<close> is not a number. It is read as 99, and the group fails
  with an hour out of range. The minute token of \<^verbatim>\<open>08: 30\<close> starts with a space;
  it is read as 30, not as 0.
\<close>

theorem nonnumeric_hour_counterexample:
  "atoi ''99x'' = Inr 99
   \<and> parse_interval zero_interval (Some ''mon - 99x:00 - 18:00'') = Inl (HourOutOfRange Start 99)
   \<and> atoi '' 30'' = Inr 30
   \<and> parse_interval zero_interval (Some ''mon - 08: 30 - 18:00'')
     = Inr \<lparr>wday = [Stored 1], start_time = \<lparr>hour = 8, minute = 30\<rparr>,
            end_time = \<lparr>hour = 18, minute = 0\<rparr>, roles = []\<rparr>"
  by code_simp

section \<open>Role groups\<close>

text \<open>
  Claim C8. \<^verbatim>\<open>parse_roles\<close> makes one slot more than the group has commas. For
  \<^verbatim>\<open>alice, ,bob\<close> the slot of the token of white space holds \<^verbatim>\<open>NULL\<close>; for
  \<^verbatim>\<open>alice,,bob\<close> and \<^verbatim>\<open>alice,\<close> the last slot is never assigned. The scan of
  lines 507-516 hands each slot to \<^verbatim>\<open>strcmp\<close> without a test: it runs into the
  \<^verbatim>\<open>NULL\<close> slot when it looks for \<^verbatim>\<open>bob\<close>, and into the slot that was never
  assigned when it looks for a name that is not in the group.
\<close>

theorem unguarded_role_slots:
  "nroles (parse_roles interval (Some s)) = Suc (count_list s CHR '','')
   \<and> roles (parse_roles interval (Some ''alice, ,bob''))
       = [Stored (Some ''alice''), Stored None, Stored (Some ''bob'')]
   \<and> roles (parse_roles interval (Some ''alice,,bob''))
       = [Stored (Some ''alice''), Stored (Some ''bob''), Uninit]
   \<and> roles (parse_roles interval (Some ''alice,''))
       = [Stored (Some ''alice''), Uninit]
   \<and> find_role [Stored (Some ''alice''), Stored None, Stored (Some ''bob'')] ''bob'' = Inl NullDeref
   \<and> find_role [Stored (Some ''alice''), Stored (Some ''bob''), Uninit] ''carol'' = Inl UninitRead
   \<and> block_access_checks True (Some ''mon - 08:00 - 18:00'') (Some ''alice, ,bob'') ''bob''
        \<lparr>tm_wday = 1, tm_hour = 20, tm_min = 0\<rparr> = Inl NullDeref
   \<and> block_access_checks True (Some ''mon - 08:00 - 18:00'') (Some ''alice,,bob'') ''carol''
        \<lparr>tm_wday = 1, tm_hour = 20, tm_min = 0\<rparr> = Inl UninitRead"
proof -
  have n: "nroles (parse_roles interval (Some s)) = Suc (count_list s CHR '','')"
    using length_strtok_tokens [of "CHR '',''" s]
    by (simp add: nroles_def parse_roles_def Let_def)
  have t1: "strtok_tokens '','' ''alice, ,bob'' = [''alice'', '' '', ''bob'']"
    by code_simp
  have t2: "strtok_tokens '','' ''alice,,bob'' = [''alice'', ''bob'']"
    by code_simp
  have t3: "strtok_tokens '','' ''alice,'' = [''alice'']"
    by code_simp
  have r1: "roles (parse_roles interval (Some ''alice, ,bob''))
       = [Stored (Some ''alice''), Stored None, Stored (Some ''bob'')]"
    by (simp add: parse_roles_def t1 isspace_def)
  have r2: "roles (parse_roles interval (Some ''alice,,bob''))
       = [Stored (Some ''alice''), Stored (Some ''bob''), Uninit]"
    by (simp add: parse_roles_def t2 isspace_def)
  have r3: "roles (parse_roles interval (Some ''alice,''))
       = [Stored (Some ''alice''), Uninit]"
    by (simp add: parse_roles_def t3 isspace_def)
  have f1: "find_role [Stored (Some ''alice''), Stored None, Stored (Some ''bob'')] ''bob'' = Inl NullDeref"
    by simp
  have f2: "find_role [Stored (Some ''alice''), Stored (Some ''bob''), Uninit] ''carol'' = Inl UninitRead"
    by simp
  have b1: "block_access_checks True (Some ''mon - 08:00 - 18:00'') (Some ''alice, ,bob'') ''bob''
        \<lparr>tm_wday = 1, tm_hour = 20, tm_min = 0\<rparr> = Inl NullDeref"
    by code_simp
  have b2: "block_access_checks True (Some ''mon - 08:00 - 18:00'') (Some ''alice,,bob'') ''carol''
        \<lparr>tm_wday = 1, tm_hour = 20, tm_min = 0\<rparr> = Inl UninitRead"
    by code_simp
  from n r1 r2 r3 f1 f2 b1 b2 show ?thesis by (intro conjI)
qed

section \<open>The split of the two settings into groups\<close>

lemma strtok_all_rest_None: "strtok_all_rest ds None = []"
  by (subst strtok_all_rest.simps) (simp add: strtok_all_def)

lemma strtok_all_rest_Some:
  "strtok_all_rest [d] (Some s) =
     (if dropWhile (\<lambda>c. c \<noteq> d) s \<noteq> []
      then takeWhile (\<lambda>c. c \<noteq> d) s # strtok_all_rest [d] (Some (drop 1 (dropWhile (\<lambda>c. c \<noteq> d) s)))
      else if s \<noteq> [] then [s] else [])"
  by (subst strtok_all_rest.simps) (simp add: strtok_all_def strtok_all_rest_None)

lemma strtok_all_rest_split_all:
  "strtok_all_rest [d] (Some s) =
     (if last (split_all d s) = [] then butlast (split_all d s) else split_all d s)"
proof (induction s rule: length_induct)
  case (1 s)
  define p where "p = dropWhile (\<lambda>c. c \<noteq> d) s"
  show ?case
  proof (cases "p = []")
    case True
    then have sp: "split_all d s = [takeWhile (\<lambda>c. c \<noteq> d) s]"
      unfolding p_def by (rule split_all_last_group)
    from True have tw: "takeWhile (\<lambda>c. c \<noteq> d) s = s"
      unfolding p_def by (simp add: takeWhile_eq_all_conv)
    have "strtok_all_rest [d] (Some s) = (if s \<noteq> [] then [s] else [])"
      using True unfolding p_def by (subst strtok_all_rest_Some) simp
    then show ?thesis
      by (simp add: sp tw)
  next
    case False
    then have sp: "split_all d s = takeWhile (\<lambda>c. c \<noteq> d) s # split_all d (drop 1 p)"
      unfolding p_def by (rule split_all_next_group)
    have "length p \<le> length s"
      unfolding p_def by (rule length_dropWhile_le)
    with False have "length (drop 1 p) < length s"
      by (cases p) auto
    with 1 have ih: "strtok_all_rest [d] (Some (drop 1 p)) =
        (if last (split_all d (drop 1 p)) = [] then butlast (split_all d (drop 1 p))
         else split_all d (drop 1 p))"
      by blast
    have "strtok_all_rest [d] (Some s)
        = takeWhile (\<lambda>c. c \<noteq> d) s # strtok_all_rest [d] (Some (drop 1 p))"
      using False unfolding p_def by (subst strtok_all_rest_Some) simp
    then have "strtok_all_rest [d] (Some s)
        = takeWhile (\<lambda>c. c \<noteq> d) s
          # (if last (split_all d (drop 1 p)) = [] then butlast (split_all d (drop 1 p))
             else split_all d (drop 1 p))"
      by (simp only: ih)
    then show ?thesis
      by (simp add: sp split_all_not_Nil)
  qed
qed

lemma strtok_all_tokens_Some:
  "strtok_all_tokens (Some s) [d] src0 =
     (if last (split_all d s) = [] then butlast (split_all d s) else split_all d s)"
proof -
  have "strtok_all (Some s) [d] src0 = strtok_all None [d] (Some s)"
    by (simp add: strtok_all_def)
  then have "strtok_all_tokens (Some s) [d] src0 = strtok_all_rest [d] (Some s)"
    unfolding strtok_all_tokens_def by (subst strtok_all_rest.simps) simp
  then show ?thesis
    by (simp only: strtok_all_rest_split_all)
qed

lemma strtok_all_tokens_None: "strtok_all_tokens None ds None = []"
  by (simp add: strtok_all_tokens_def strtok_all_def)

lemma trim_prefix:
  assumes "list_all isspace w"
  shows "trim (Some (w @ g)) = trim (Some g)"
proof -
  have "dropWhile isspace (w @ g) = dropWhile isspace g"
    using assms by (intro dropWhile_append2) (simp add: list_all_iff)
  then show ?thesis by simp
qed

lemma trim_suffix:
  assumes "list_all isspace w"
  shows "trim (Some (g @ w)) = trim (Some g)"
proof (cases "list_all isspace g")
  case True
  with assms have e: "dropWhile isspace (g @ w) = []" "dropWhile isspace g = []"
    by (simp_all add: list_all_iff)
  show ?thesis
    unfolding trim.simps Let_def by (simp only: e)
next
  case False
  then obtain x where x: "x \<in> set g" "\<not> isspace x"
    by (auto simp: list_all_iff)
  then have t: "dropWhile isspace (g @ w) = dropWhile isspace g @ w"
    by (rule dropWhile_append1)
  have "dropWhile isspace (rev w @ rev (dropWhile isspace g))
      = dropWhile isspace (rev (dropWhile isspace g))"
    using assms by (intro dropWhile_append2) (simp add: list_all_iff)
  then show ?thesis
    unfolding trim.simps Let_def by (simp only: t rev_append)
qed

lemma trim_Nil: "trim (Some []) = None"
  by simp


lemma trim_blank:
  assumes "trim (Some s) = None"
  shows "list_all isspace s"
proof -
  define t where "t = dropWhile isspace s"
  have "trim (Some s)
      = (if rev (dropWhile isspace (rev t)) = [] then None
         else Some (rev (dropWhile isspace (rev t))))"
    unfolding t_def by (simp only: trim.simps Let_def)
  with assms have "rev (dropWhile isspace (rev t)) = []"
    by (simp split: if_splits)
  then have "dropWhile isspace (rev t) = []"
    by (simp only: rev_is_Nil_conv)
  then have all: "\<forall>x\<in>set t. isspace x"
    by (simp only: dropWhile_eq_Nil_conv set_rev)
  have "t = []"
  proof (rule ccontr)
    assume ne: "t \<noteq> []"
    then have "\<not> isspace (hd t)"
      unfolding t_def by (rule hd_dropWhile)
    moreover from ne have "hd t \<in> set t"
      by (rule hd_in_set)
    ultimately show False
      using all by blast
  qed
  then show ?thesis
    unfolding t_def by (simp only: dropWhile_eq_Nil_conv list_all_iff)
qed

lemma trim_decomp:
  assumes "trim (Some ro) = Some s"
  shows "\<exists>w1 w2. ro = w1 @ s @ w2 \<and> list_all isspace w1 \<and> list_all isspace w2"
proof -
  define t where "t = dropWhile isspace ro"
  from assms have s: "s = rev (dropWhile isspace (rev t))"
    unfolding t_def by (simp add: Let_def split: if_splits)
  have "rev t = takeWhile isspace (rev t) @ dropWhile isspace (rev t)"
    by simp
  then have "rev (rev t) = rev (takeWhile isspace (rev t) @ dropWhile isspace (rev t))"
    by (rule arg_cong)
  then have t: "t = s @ rev (takeWhile isspace (rev t))"
    unfolding s by (simp only: rev_rev_ident rev_append)
  have "ro = takeWhile isspace ro @ t"
    unfolding t_def by simp
  with t have "ro = takeWhile isspace ro @ s @ rev (takeWhile isspace (rev t))"
    by simp
  moreover have "list_all isspace (takeWhile isspace ro)"
    by (auto simp: list_all_iff dest: set_takeWhileD)
  moreover have "list_all isspace (rev (takeWhile isspace (rev t)))"
    by (auto simp: list_all_iff dest: set_takeWhileD)
  ultimately show ?thesis by blast
qed

lemma split_all_prefix:
  "d \<notin> set w \<Longrightarrow> split_all d (w @ x) = (w @ hd (split_all d x)) # tl (split_all d x)"
  by (induction w) (auto split: list.splits simp: split_all_not_Nil)

lemma split_all_suffix:
  "d \<notin> set w \<Longrightarrow> split_all d (x @ w) = butlast (split_all d x) @ [last (split_all d x) @ w]"
proof (induction x)
  case Nil
  then show ?case by (simp add: split_all_single)
next
  case (Cons c x)
  then show ?case
    by (cases "split_all d x"; cases "split_all d (x @ w)")
       (auto simp: split_all_not_Nil split: if_splits)
qed

lemma isspace_no_delim: "\<not> isspace d \<Longrightarrow> list_all isspace w \<Longrightarrow> d \<notin> set w"
  by (auto simp: list_all_iff)

lemma map_trim_split_all:
  assumes "\<not> isspace d" "list_all isspace w1" "list_all isspace w2"
  shows "map (\<lambda>g. trim (Some g)) (split_all d (w1 @ s @ w2))
       = map (\<lambda>g. trim (Some g)) (split_all d s)"
proof -
  have d1: "d \<notin> set w1" and d2: "d \<notin> set w2"
    using assms by (simp_all add: isspace_no_delim)
  have ne: "split_all d s \<noteq> []" by (rule split_all_not_Nil)
  have a: "map (\<lambda>g. trim (Some g)) (split_all d (s @ w2)) = map (\<lambda>g. trim (Some g)) (split_all d s)"
  proof -
    have "map (\<lambda>g. trim (Some g)) (split_all d (s @ w2))
        = map (\<lambda>g. trim (Some g)) (butlast (split_all d s)) @ [trim (Some (last (split_all d s) @ w2))]"
      by (simp add: split_all_suffix [OF d2] del: trim.simps)
    also have "\<dots> = map (\<lambda>g. trim (Some g)) (butlast (split_all d s) @ [last (split_all d s)])"
      by (simp add: trim_suffix [OF assms(3)] del: trim.simps)
    finally show ?thesis using ne by (simp del: trim.simps)
  qed
  have ne2: "split_all d (s @ w2) \<noteq> []" by (rule split_all_not_Nil)
  have "map (\<lambda>g. trim (Some g)) (split_all d (w1 @ s @ w2))
      = trim (Some (w1 @ hd (split_all d (s @ w2)))) # map (\<lambda>g. trim (Some g)) (tl (split_all d (s @ w2)))"
    by (simp add: split_all_prefix [OF d1] del: trim.simps)
  also have "\<dots> = map (\<lambda>g. trim (Some g)) (hd (split_all d (s @ w2)) # tl (split_all d (s @ w2)))"
    by (simp add: trim_prefix [OF assms(2)] del: trim.simps)
  also have "\<dots> = map (\<lambda>g. trim (Some g)) (split_all d (s @ w2))"
    using ne2 by (simp del: trim.simps)
  finally show ?thesis by (simp only: a)
qed

lemma count_list_append: "count_list (xs @ ys) d = count_list xs d + count_list ys d"
  by (induction xs) auto

lemma count_list_absent: "d \<notin> set w \<Longrightarrow> count_list w d = 0"
  by (induction w) auto

lemma fill_item_all:
  assumes "gs \<noteq> []"
  shows "fill_item (if last gs = [] then butlast gs else gs) (length gs)
     = Inr (map (\<lambda>g. trim (Some g)) gs)"
proof (cases "last gs = []")
  case True
  have "map (\<lambda>g. trim (Some g)) gs = map (\<lambda>g. trim (Some g)) (butlast gs @ [last gs])"
    using assms by simp
  also have "\<dots> = map (\<lambda>g. trim (Some g)) (butlast gs) @ [None]"
    unfolding True by simp
  finally have m: "map (\<lambda>g. trim (Some g)) gs = map (\<lambda>g. trim (Some g)) (butlast gs) @ [None]" .
  have "length gs - length (butlast gs) = 1"
    using assms by (cases gs) auto
  then have "fill_item (butlast gs) (length gs) = Inr (map (\<lambda>g. trim (Some g)) (butlast gs) @ [None])"
    by (simp add: fill_item_def del: trim.simps)
  with True m show ?thesis by (simp del: trim.simps)
next
  case False
  then show ?thesis by (simp add: fill_item_def del: trim.simps)
qed

lemma length_filter_nonempty:
  "length gs - length (filter (\<lambda>g. g \<noteq> []) gs) = length (filter (\<lambda>g. g = []) gs)"
proof -
  have "length (filter (\<lambda>g. g \<noteq> []) gs) + length (filter (\<lambda>g. g = []) gs) = length gs"
    using sum_length_filter_compl [of "\<lambda>g. g \<noteq> []" gs] by simp
  then show ?thesis by arith
qed

lemma replicate_snoc_None: "replicate (Suc n) x = replicate n x @ [x]"
  by (simp add: replicate_append_same)

lemma blank_groups_fill:
  "list_all (\<lambda>h. trim (Some h) = None) gs \<Longrightarrow>
   map (\<lambda>g. trim (Some g)) (filter (\<lambda>g. g \<noteq> []) gs)
     @ replicate (length (filter (\<lambda>g. g = []) gs) + c) None
   = replicate (length gs + c) None"
proof (induction gs)
  case Nil
  then show ?case by simp
next
  case (Cons g gs)
  define xs where "xs = map (\<lambda>g. trim (Some g)) (filter (\<lambda>g. g \<noteq> []) gs)"
  define m where "m = length (filter (\<lambda>g. g = []) gs)"
  from Cons have ih: "xs @ replicate (m + c) None = replicate (length gs + c) None"
    and g: "trim (Some g) = None"
    unfolding xs_def m_def by (simp_all del: trim.simps)
  show ?case
  proof (cases "g = []")
    case True
    have "map (\<lambda>g. trim (Some g)) (filter (\<lambda>g. g \<noteq> []) (g # gs))
        @ replicate (length (filter (\<lambda>g. g = []) (g # gs)) + c) None
      = xs @ replicate (Suc (m + c)) None"
      unfolding xs_def m_def using True by (simp del: trim.simps)
    also have "\<dots> = (xs @ replicate (m + c) None) @ [None]"
      by (simp only: replicate_snoc_None append_assoc)
    also have "\<dots> = replicate (length gs + c) None @ [None]"
      by (simp only: ih)
    also have "\<dots> = replicate (length (g # gs) + c) None"
      by (simp add: replicate_append_same)
    finally show ?thesis .
  next
    case False
    have "map (\<lambda>g. trim (Some g)) (filter (\<lambda>g. g \<noteq> []) (g # gs))
        @ replicate (length (filter (\<lambda>g. g = []) (g # gs)) + c) None
      = None # (xs @ replicate (m + c) None)"
      unfolding xs_def m_def using False g by (simp del: trim.simps)
    also have "\<dots> = replicate (length (g # gs) + c) None"
      by (simp add: ih)
    finally show ?thesis .
  qed
qed

lemma shifted_groups_blank:
  "0 < c \<Longrightarrow>
   map (\<lambda>g. trim (Some g)) (filter (\<lambda>g. g \<noteq> []) gs)
     @ replicate (length (filter (\<lambda>g. g = []) gs) + c) None
   = replicate c None @ map (\<lambda>g. trim (Some g)) gs \<Longrightarrow>
   list_all (\<lambda>h. trim (Some h) = None) gs"
proof (induction gs arbitrary: c)
  case Nil
  then show ?case by simp
next
  case (Cons g gs)
  define xs where "xs = map (\<lambda>g. trim (Some g)) (filter (\<lambda>g. g \<noteq> []) gs)"
  define ys where "ys = map (\<lambda>g. trim (Some g)) gs"
  define m where "m = length (filter (\<lambda>g. g = []) gs)"
  have ih: "0 < k \<Longrightarrow> xs @ replicate (m + k) None = replicate k None @ ys
      \<Longrightarrow> list_all (\<lambda>h. trim (Some h) = None) gs" for k
    unfolding xs_def ys_def m_def by (rule Cons.IH)
  have sh: "replicate k (None :: string option) @ None # zs = replicate (Suc k) None @ zs" for k zs
    by (simp add: replicate_append_same)
  show ?case
  proof (cases "g = []")
    case True
    from Cons.prems(2) have "xs @ replicate (Suc m + c) None = replicate c None @ None # ys"
      unfolding xs_def ys_def m_def using True by (simp del: trim.simps add: trim_Nil)
    then have eq: "xs @ replicate (m + Suc c) None = replicate (Suc c) None @ ys"
      by (simp only: sh add_Suc add_Suc_right)
    have "list_all (\<lambda>h. trim (Some h) = None) gs"
      by (rule ih [OF _ eq]) simp
    with True show ?thesis by simp
  next
    case False
    obtain c' where c: "c = Suc c'"
      using Cons.prems(1) by (cases c) auto
    from Cons.prems(2)
    have e: "trim (Some g) # (xs @ replicate (m + c) None)
        = replicate c None @ trim (Some g) # ys"
      unfolding xs_def ys_def m_def using False by (simp del: trim.simps)
    then have "trim (Some g) # (xs @ replicate (m + c) None)
        = None # (replicate c' None @ trim (Some g) # ys)"
      unfolding c by (simp only: replicate_Suc append_Cons)
    then have hd: "trim (Some g) = None"
      and tl: "xs @ replicate (m + c) None = replicate c' None @ trim (Some g) # ys"
      by (simp_all only: list.inject)
    from tl have eq: "xs @ replicate (m + c) None = replicate c None @ ys"
      unfolding hd c by (simp only: sh)
    have "list_all (\<lambda>h. trim (Some h) = None) gs"
      by (rule ih [OF Cons.prems(1) eq])
    with hd show ?thesis by (simp del: trim.simps)
  qed
qed

lemma map_blank_groups:
  "list_all (\<lambda>h. trim (Some h) = None) gs \<Longrightarrow>
   map (\<lambda>g. trim (Some g)) gs = replicate (length gs) None"
  by (induction gs) (simp_all del: trim.simps)

lemma shifted_groups_iff:
  "(map (\<lambda>g. trim (Some g)) (filter (\<lambda>g. g \<noteq> []) gs)
     @ replicate (length (filter (\<lambda>g. g = []) gs)) None
    = map (\<lambda>g. trim (Some g)) gs) = empties_last gs"
proof (induction gs)
  case Nil
  then show ?case by simp
next
  case (Cons g gs)
  define xs where "xs = map (\<lambda>g. trim (Some g)) (filter (\<lambda>g. g \<noteq> []) gs)"
  define ys where "ys = map (\<lambda>g. trim (Some g)) gs"
  define m where "m = length (filter (\<lambda>g. g = []) gs)"
  show ?case
  proof (cases "g = []")
    case True
    have l: "map (\<lambda>g. trim (Some g)) (filter (\<lambda>g. g \<noteq> []) (g # gs))
        @ replicate (length (filter (\<lambda>g. g = []) (g # gs))) None
      = xs @ replicate (m + 1) None"
      unfolding xs_def m_def using True by (simp del: trim.simps)
    have r: "map (\<lambda>g. trim (Some g)) (g # gs) = replicate 1 None @ ys"
      unfolding ys_def using True by (simp del: trim.simps add: trim_Nil)
    have "(xs @ replicate (m + 1) None = replicate 1 None @ ys)
        = list_all (\<lambda>h. trim (Some h) = None) gs"
    proof
      assume "xs @ replicate (m + 1) None = replicate 1 None @ ys"
      then show "list_all (\<lambda>h. trim (Some h) = None) gs"
        unfolding xs_def ys_def m_def by (rule shifted_groups_blank [rotated]) simp
    next
      assume b: "list_all (\<lambda>h. trim (Some h) = None) gs"
      then have "xs @ replicate (m + 1) None = replicate (length gs + 1) None"
        unfolding xs_def m_def by (rule blank_groups_fill)
      moreover have "replicate 1 None @ ys = replicate (length gs + 1) None"
        unfolding ys_def map_blank_groups [OF b] by (simp add: replicate_append_same)
      ultimately show "xs @ replicate (m + 1) None = replicate 1 None @ ys"
        by simp
    qed
    then show ?thesis
      unfolding l r using True by simp
  next
    case False
    have l: "map (\<lambda>g. trim (Some g)) (filter (\<lambda>g. g \<noteq> []) (g # gs))
        @ replicate (length (filter (\<lambda>g. g = []) (g # gs))) None
      = trim (Some g) # (xs @ replicate m None)"
      unfolding xs_def m_def using False by (simp del: trim.simps)
    have r: "map (\<lambda>g. trim (Some g)) (g # gs) = trim (Some g) # ys"
      unfolding ys_def by (simp del: trim.simps)
    have "(xs @ replicate m None = ys) = empties_last gs"
      unfolding xs_def ys_def m_def by (rule Cons.IH)
    then show ?thesis
      unfolding l r using False by (simp del: trim.simps)
  qed
qed

lemma fill_item_shifted:
  "(fill_item (filter (\<lambda>g. g \<noteq> []) gs) (length gs) = Inr (map (\<lambda>g. trim (Some g)) gs))
     = empties_last gs"
proof -
  have "fill_item (filter (\<lambda>g. g \<noteq> []) gs) (length gs)
      = Inr (map (\<lambda>g. trim (Some g)) (filter (\<lambda>g. g \<noteq> []) gs)
           @ replicate (length (filter (\<lambda>g. g = []) gs)) None)"
    unfolding fill_item_def length_filter_nonempty
    by (simp add: not_less del: trim.simps)
  then show ?thesis
    by (simp only: shifted_groups_iff sum.inject)
qed

lemma semicolon_not_space: "\<not> isspace CHR '';''"
  by (simp add: isspace_def)

lemma count_list_trimmed:
  assumes "\<not> isspace d" "list_all isspace w1" "list_all isspace w2"
  shows "count_list (w1 @ s @ w2) d = count_list s d"
  using assms by (simp add: count_list_append count_list_absent isspace_no_delim)

lemma role_items_groups:
  "role_items (trim (Some ro)) (Suc (count_list ro CHR '';'')) None
     = Inr (map (\<lambda>g. trim (Some g)) (split_all CHR '';'' ro))"
proof (cases "trim (Some ro)")
  case None
  then have b: "list_all isspace ro" by (rule trim_blank)
  then have nd: "CHR '';'' \<notin> set ro"
    using semicolon_not_space by (simp add: isspace_no_delim)
  then have "count_list ro CHR '';'' = 0" and "split_all CHR '';'' ro = [ro]"
    by (simp_all add: count_list_absent split_all_single)
  then show ?thesis
    using None by (simp add: role_items_def strtok_all_tokens_None fill_item_def del: trim.simps)
next
  case (Some s)
  then obtain w1 w2 where ro: "ro = w1 @ s @ w2" and w: "list_all isspace w1" "list_all isspace w2"
    using trim_decomp by blast
  have c: "count_list ro CHR '';'' = count_list s CHR '';''"
    unfolding ro using semicolon_not_space w by (rule count_list_trimmed)
  have m: "map (\<lambda>g. trim (Some g)) (split_all CHR '';'' ro)
      = map (\<lambda>g. trim (Some g)) (split_all CHR '';'' s)"
    unfolding ro using semicolon_not_space w by (rule map_trim_split_all)
  have "role_items (Some s) (length (split_all CHR '';'' s)) None
      = Inr (map (\<lambda>g. trim (Some g)) (split_all CHR '';'' s))"
    unfolding role_items_def strtok_all_tokens_Some
    by (rule fill_item_all) (rule split_all_not_Nil)
  then show ?thesis
    unfolding Some c m by (simp only: length_split_all)
qed

lemma interval_items_groups:
  assumes "trim (Some iv) = Some s"
  shows "(interval_items s (Suc (count_list iv CHR '';''))
     = Inr (map (\<lambda>g. trim (Some g)) (split_all CHR '';'' iv)))
     = empties_last (split_all CHR '';'' s)"
proof -
  obtain w1 w2 where iv: "iv = w1 @ s @ w2" and w: "list_all isspace w1" "list_all isspace w2"
    using assms(1) trim_decomp by blast
  have c: "count_list iv CHR '';'' = count_list s CHR '';''"
    unfolding iv using semicolon_not_space w by (rule count_list_trimmed)
  have m: "map (\<lambda>g. trim (Some g)) (split_all CHR '';'' iv)
      = map (\<lambda>g. trim (Some g)) (split_all CHR '';'' s)"
    unfolding iv using semicolon_not_space w by (rule map_trim_split_all)
  have "(interval_items s (length (split_all CHR '';'' s))
      = Inr (map (\<lambda>g. trim (Some g)) (split_all CHR '';'' s)))
      = empties_last (split_all CHR '';'' s)"
    unfolding interval_items_def strtok_tokens_split_all
    by (rule fill_item_shifted)
  then show ?thesis
    unfolding c m by (simp only: length_split_all)
qed

text \<open>
  Claim C5, amended. The array of role groups that \<^verbatim>\<open>parse_options\<close> fills holds
  every group of the role string in order, trimmed, with \<^verbatim>\<open>NULL\<close> for a group that
  is empty or white space: neighbouring semicolons are not merged, and the empty
  group behind a last semicolon, which \<^verbatim>\<open>strtok_all\<close> does not return, is the
  cleared slot at the end of the array. The array of interval groups is filled by
  \<^verbatim>\<open>strtok\<close>, which skips the groups of length zero, and its last slots stay
  cleared: it holds every group of the interval string in order exactly when
  the groups of the trimmed string have their empty groups last.
\<close>

theorem top_level_split:
  "role_items (trim (Some ro)) (Suc (count_list ro CHR '';'')) None
     = Inr (map (\<lambda>g. trim (Some g)) (split_all CHR '';'' ro))
   \<and> (trim (Some iv) = Some s
        \<longrightarrow> (interval_items s (Suc (count_list iv CHR '';''))
              = Inr (map (\<lambda>g. trim (Some g)) (split_all CHR '';'' iv)))
            = empties_last (split_all CHR '';'' s))"
  using role_items_groups interval_items_groups by blast

text \<open>
  Two interval groups with white space around them and an empty group behind the
  last semicolon, and five role groups, of which the second is white space and
  the third and the last are empty.
\<close>

theorem top_level_split_witness:
  "trim (Some '' mon - 08:00 - 18:00 ; sat - 08:00 - 12:00; '')
     = Some ''mon - 08:00 - 18:00 ; sat - 08:00 - 12:00;''
   \<and> empties_last (split_all CHR '';'' ''mon - 08:00 - 18:00 ; sat - 08:00 - 12:00;'')
   \<and> interval_items ''mon - 08:00 - 18:00 ; sat - 08:00 - 12:00;'' 3
     = Inr [Some ''mon - 08:00 - 18:00'', Some ''sat - 08:00 - 12:00'', None]
   \<and> role_items (trim (Some ''alice,bob; ;;carol;'')) 5 None
     = Inr [Some ''alice,bob'', None, None, Some ''carol'', None]"
proof -
  have h1: "trim (Some '' mon - 08:00 - 18:00 ; sat - 08:00 - 12:00; '')
     = Some ''mon - 08:00 - 18:00 ; sat - 08:00 - 12:00;''"
    by code_simp
  have h2: "empties_last (split_all CHR '';'' ''mon - 08:00 - 18:00 ; sat - 08:00 - 12:00;'')"
    by code_simp
  have n1: "Suc (count_list '' mon - 08:00 - 18:00 ; sat - 08:00 - 12:00; '' CHR '';'') = 3"
    by code_simp
  have g1: "map (\<lambda>g. trim (Some g)) (split_all CHR '';'' '' mon - 08:00 - 18:00 ; sat - 08:00 - 12:00; '')
     = [Some ''mon - 08:00 - 18:00'', Some ''sat - 08:00 - 12:00'', None]"
    by code_simp
  have n2: "Suc (count_list ''alice,bob; ;;carol;'' CHR '';'') = 5"
    by code_simp
  have g2: "map (\<lambda>g. trim (Some g)) (split_all CHR '';'' ''alice,bob; ;;carol;'')
     = [Some ''alice,bob'', None, None, Some ''carol'', None]"
    by code_simp
  note w = top_level_split [of "''alice,bob; ;;carol;''"
      "'' mon - 08:00 - 18:00 ; sat - 08:00 - 12:00; ''"
      "''mon - 08:00 - 18:00 ; sat - 08:00 - 12:00;''"]
  from w have r: "role_items (trim (Some ''alice,bob; ;;carol;'')) 5 None
     = Inr [Some ''alice,bob'', None, None, Some ''carol'', None]"
    unfolding n2 g2 by (rule conjunct1)
  from w [THEN conjunct2, THEN mp, OF h1]
  have "(interval_items ''mon - 08:00 - 18:00 ; sat - 08:00 - 12:00;'' 3
       = Inr [Some ''mon - 08:00 - 18:00'', Some ''sat - 08:00 - 12:00'', None])
      = empties_last (split_all CHR '';'' ''mon - 08:00 - 18:00 ; sat - 08:00 - 12:00;'')"
    unfolding n1 g1 .
  with h2 have i: "interval_items ''mon - 08:00 - 18:00 ; sat - 08:00 - 12:00;'' 3
     = Inr [Some ''mon - 08:00 - 18:00'', Some ''sat - 08:00 - 12:00'', None]"
    by (rule iffD2 [rotated])
  from h1 h2 i r show ?thesis by (intro conjI)
qed

text \<open>
  An interval string with an empty second group: \<^verbatim>\<open>strtok\<close> skips it, the third
  group moves to the second slot and the third slot stays \<^verbatim>\<open>NULL\<close>, where the
  groups in order have \<^verbatim>\<open>NULL\<close> in the second slot. \<^verbatim>\<open>parse_interval\<close> then reads
  the \<^verbatim>\<open>NULL\<close> of the third slot.
\<close>

theorem empty_interval_group_counterexample:
  "interval_items ''mon - 08:00 - 18:00;;sat - 08:00 - 12:00'' 3
     = Inr [Some ''mon - 08:00 - 18:00'', Some ''sat - 08:00 - 12:00'', None]
   \<and> map (\<lambda>g. trim (Some g)) (split_all CHR '';'' ''mon - 08:00 - 18:00;;sat - 08:00 - 12:00'')
     = [Some ''mon - 08:00 - 18:00'', None, Some ''sat - 08:00 - 12:00'']
   \<and> parse_options (Some ''mon - 08:00 - 18:00;;sat - 08:00 - 12:00'') (Some ''a;;b'') None
        (replicate 3 zero_interval) 3 = Inl NullDeref"
  by code_simp

end
